theory Spec2Isabelle
  imports Complex_Main "HOL-Library.Word"
begin

section \<open>Numbers of the script\<close>

text \<open>
  The component computes with the script language's \<open>number\<close> type, the binary64
  floating-point numbers. Two readings of it are used below.

  \<^item> Geometry, the spectrum and the particle field are modelled over \<^typ>\<open>real\<close>: the
    arithmetic of the source, without rounding. The projection is modelled a second
    time in the arithmetic of the language, for the question whether two of its
    outputs are equal, and the two models are shown to agree within \<open>2^-20\<close>.
  \<^item> The playback controller reads \<open>audio.duration\<close>, which is \<open>NaN\<close> until the metadata
    of the track has arrived and infinite for an unbounded stream, it divides by widths
    that may be zero, and it rounds a product down to whole seconds. Its numbers are
    modelled by \<open>jsnum\<close>: a real number, one of the two infinities, or \<open>NaN\<close>, with the
    arithmetic and the comparisons of the language on these values. Every sum, product
    and quotient is rounded to the nearest binary64 number, ties to even
    (\<open>round_double\<close>). The sign of zero is left out; every zero divisor of the source is
    a width or a height, which is never negative.
\<close>

datatype jsnum = NaN | PosInf | NegInf | Num real

fun isNaN :: "jsnum \<Rightarrow> bool" where
  "isNaN NaN = True"
| "isNaN _ = False"

fun jneg :: "jsnum \<Rightarrow> jsnum" where
  "jneg NaN = NaN"
| "jneg PosInf = NegInf"
| "jneg NegInf = PosInf"
| "jneg (Num a) = Num (- a)"

text \<open>The infinity of the sign of a non-zero real.\<close>

definition inf_of_sign :: "real \<Rightarrow> jsnum" where
  "inf_of_sign a = (if 0 < a then PosInf else NegInf)"

text \<open>
  Rounding to the nearest binary64 number. A number \<open>x\<close> that is not zero has the
  exponent \<open>e\<close> with \<open>2^e \<le> |x| < 2^(e+1)\<close>, and at least \<open>-1022\<close> (below, the numbers are
  subnormal and keep that exponent). The binary64 numbers of that exponent are the
  multiples of \<open>2^(e-52)\<close>; \<open>x\<close> is rounded to the nearest multiple, to the even one of
  the two when it lies half way. A result of magnitude \<open>2^1024\<close> or more is the infinity
  of the sign of \<open>x\<close>.
\<close>

definition round_half_even :: "real \<Rightarrow> int" where
  "round_half_even q =
     (let f = \<lfloor>q\<rfloor>
      in if q - of_int f < 1 / 2 then f
         else if 1 / 2 < q - of_int f then f + 1
         else if even f then f else f + 1)"

definition double_exponent :: "real \<Rightarrow> int" where
  "double_exponent x = max \<lfloor>log 2 \<bar>x\<bar>\<rfloor> (- 1022)"

definition round_double :: "real \<Rightarrow> jsnum" where
  "round_double x =
     (if x = 0 then Num 0
      else
        (let u = 2 powr of_int (double_exponent x - 52);
             y = of_int (round_half_even (x / u)) * u
         in if 2 powr 1024 \<le> \<bar>y\<bar> then inf_of_sign x else Num y))"

fun jadd :: "jsnum \<Rightarrow> jsnum \<Rightarrow> jsnum" where
  "jadd NaN _ = NaN"
| "jadd _ NaN = NaN"
| "jadd PosInf NegInf = NaN"
| "jadd NegInf PosInf = NaN"
| "jadd PosInf _ = PosInf"
| "jadd _ PosInf = PosInf"
| "jadd NegInf _ = NegInf"
| "jadd _ NegInf = NegInf"
| "jadd (Num a) (Num b) = round_double (a + b)"

definition jsub :: "jsnum \<Rightarrow> jsnum \<Rightarrow> jsnum" where
  "jsub a b = jadd a (jneg b)"

fun jmul :: "jsnum \<Rightarrow> jsnum \<Rightarrow> jsnum" where
  "jmul NaN _ = NaN"
| "jmul _ NaN = NaN"
| "jmul (Num a) (Num b) = round_double (a * b)"
| "jmul (Num a) PosInf = (if a = 0 then NaN else inf_of_sign a)"
| "jmul (Num a) NegInf = (if a = 0 then NaN else inf_of_sign (- a))"
| "jmul PosInf (Num b) = (if b = 0 then NaN else inf_of_sign b)"
| "jmul NegInf (Num b) = (if b = 0 then NaN else inf_of_sign (- b))"
| "jmul PosInf PosInf = PosInf"
| "jmul NegInf NegInf = PosInf"
| "jmul PosInf NegInf = NegInf"
| "jmul NegInf PosInf = NegInf"

text \<open>
  Division: a finite number over zero is an infinity of the sign of the dividend (the
  zero divisors of the source are positive zeros), zero over zero is \<open>NaN\<close>.
\<close>

fun jdiv :: "jsnum \<Rightarrow> jsnum \<Rightarrow> jsnum" where
  "jdiv NaN _ = NaN"
| "jdiv _ NaN = NaN"
| "jdiv (Num a) (Num b) =
     (if b \<noteq> 0 then round_double (a / b) else if a = 0 then NaN else inf_of_sign a)"
| "jdiv (Num a) PosInf = Num 0"
| "jdiv (Num a) NegInf = Num 0"
| "jdiv PosInf (Num b) = (if b < 0 then NegInf else PosInf)"
| "jdiv NegInf (Num b) = (if b < 0 then PosInf else NegInf)"
| "jdiv _ _ = NaN"

text \<open>The comparison \<open>a < b\<close>: false as soon as one side is \<open>NaN\<close>.\<close>

fun jlt :: "jsnum \<Rightarrow> jsnum \<Rightarrow> bool" where
  "jlt NaN _ = False"
| "jlt _ NaN = False"
| "jlt (Num a) (Num b) = (a < b)"
| "jlt _ NegInf = False"
| "jlt PosInf _ = False"
| "jlt NegInf _ = True"
| "jlt _ PosInf = True"

definition jgt :: "jsnum \<Rightarrow> jsnum \<Rightarrow> bool" where
  "jgt a b = jlt b a"

text \<open>\<open>Math.floor\<close>.\<close>

fun jfloor :: "jsnum \<Rightarrow> jsnum" where
  "jfloor (Num a) = Num (of_int \<lfloor>a\<rfloor>)"
| "jfloor x = x"

section \<open>Constants\<close>

definition FREQ_BIN_COUNT :: nat where
  "FREQ_BIN_COUNT = 256"

definition FRAGMENTS_count :: nat where
  "FRAGMENTS_count = 256"

definition FRAGMENTS_minRadius :: real where
  "FRAGMENTS_minRadius = 1 / 150"

definition FRAGMENTS_maxRadius :: real where
  "FRAGMENTS_maxRadius = 1 / 60"

definition FRAGMENTS_stepRadius :: real where
  "FRAGMENTS_stepRadius = 1 / 2000"

definition FRAGMENTS_stepAngle :: real where
  "FRAGMENTS_stepAngle = 3 / 2"

definition ANGLE_STEP :: real where
  "ANGLE_STEP = 3 / 10"

definition RADIUS_LIMIT_min :: real where
  "RADIUS_LIMIT_min = 1 / 5"

definition RADIUS_LIMIT_max :: real where
  "RADIUS_LIMIT_max = 3 / 8"

definition ASPECT_RATIO :: real where
  "ASPECT_RATIO = 16 / 9"

section \<open>Geometric projection\<close>

text \<open>
  \<open>convertPolarToCartesian\<close> returns the point \<open>{x, y}\<close>, here the pair \<open>(x, y)\<close>. Its two
  last parameters default to the centre of the canvas; \<open>convertPolarToCartesian_centre\<close>
  is the call that leaves them out.
\<close>

type_synonym point = "real \<times> real"

definition convertPolarToCartesian :: "real \<Rightarrow> real \<Rightarrow> real \<Rightarrow> real \<Rightarrow> point" where
  "convertPolarToCartesian radius angleInDegrees offsetX offsetY =
     (let angleInRadians = (angleInDegrees - 90) * (pi / 180)
      in (radius * cos angleInRadians + offsetX, radius * sin angleInRadians + offsetY))"

text \<open>
  The same function in the arithmetic of the language, where every operation rounds to
  binary64. \<open>Math.PI\<close> is the binary64 number nearest to \<open>\<pi>\<close>. The language leaves the
  accuracy of \<open>Math.cos\<close> and \<open>Math.sin\<close> to the implementation; the model takes the
  correctly rounded cosine and sine, and \<open>NaN\<close> for an argument that is not finite.
\<close>

definition Math_PI :: real where
  "Math_PI = 884279719003555 / 281474976710656"

fun Math_cos :: "jsnum \<Rightarrow> jsnum" where
  "Math_cos (Num a) = round_double (cos a)"
| "Math_cos _ = NaN"

fun Math_sin :: "jsnum \<Rightarrow> jsnum" where
  "Math_sin (Num a) = round_double (sin a)"
| "Math_sin _ = NaN"

definition convertPolarToCartesian_double ::
  "jsnum \<Rightarrow> jsnum \<Rightarrow> jsnum \<Rightarrow> jsnum \<Rightarrow> jsnum \<times> jsnum" where
  "convertPolarToCartesian_double radius angleInDegrees offsetX offsetY =
     (let angleInRadians = jmul (jsub angleInDegrees (Num 90)) (jdiv (Num Math_PI) (Num 180))
      in (jadd (jmul radius (Math_cos angleInRadians)) offsetX,
          jadd (jmul radius (Math_sin angleInRadians)) offsetY))"

record canvas_size =
  width :: real
  height :: real

definition convertPolarToCartesian_centre :: "canvas_size \<Rightarrow> real \<Rightarrow> real \<Rightarrow> point" where
  "convertPolarToCartesian_centre canvasSize radius angleInDegrees =
     convertPolarToCartesian radius angleInDegrees (width canvasSize / 2) (height canvasSize / 2)"

section \<open>Canvas geometry and the spectrum\<close>

record freq_rate =
  radius :: real
  angleInDegrees :: real

text \<open>
  What \<open>initCanvasSize\<close> computes from the width of the container: the canvas size, the
  two rates of the spectrum, the size given to the cover image and the width of the
  stroke.
\<close>

record geometry =
  canvasSize :: canvas_size
  freqMultiplyRate :: freq_rate
  cover_width :: real
  cover_height :: real
  lineWidth :: real

definition initCanvasSize :: "real \<Rightarrow> geometry" where
  "initCanvasSize w =
     (let cs = \<lparr>width = w, height = w / ASPECT_RATIO\<rparr>
      in \<lparr>canvasSize = cs,
          freqMultiplyRate =
            \<lparr>radius = height cs * (RADIUS_LIMIT_max - RADIUS_LIMIT_min) / 256,
             angleInDegrees = 360 / real FREQ_BIN_COUNT\<rparr>,
          cover_width = height cs * RADIUS_LIMIT_min * 2 - 4,
          cover_height = height cs * RADIUS_LIMIT_min * 2 - 4,
          lineWidth = height cs / 4 * 2 * pi / real FREQ_BIN_COUNT * 2 / 3\<rparr>)"

text \<open>
  One turn of the spectrum loop of \<open>render\<close>, for the bin \<open>i\<close> whose magnitude byte is
  \<open>b\<close>: the angle of the stroke, the radius where it ends, and its two end points.
  \<open>vol\<close> is \<open>audio.volume\<close> and \<open>angleOffset\<close> the rotation offset.
\<close>

definition freq_angle :: "geometry \<Rightarrow> real \<Rightarrow> nat \<Rightarrow> real" where
  "freq_angle g angleOffset i = angleInDegrees (freqMultiplyRate g) * real i * 2 + angleOffset"

definition freq_end_radius :: "geometry \<Rightarrow> real \<Rightarrow> 8 word \<Rightarrow> real" where
  "freq_end_radius g vol b =
     real (unat b) * radius (freqMultiplyRate g) * (vol * (1 / 2) + 1 / 2)
       + height (canvasSize g) * RADIUS_LIMIT_min"

definition freq_segment :: "geometry \<Rightarrow> real \<Rightarrow> real \<Rightarrow> nat \<Rightarrow> 8 word \<Rightarrow> point \<times> point" where
  "freq_segment g vol angleOffset i b =
     (let angleInDegree = freq_angle g angleOffset i;
          startPoint = convertPolarToCartesian_centre (canvasSize g)
                         (height (canvasSize g) * RADIUS_LIMIT_min) angleInDegree;
          endPoint = convertPolarToCartesian_centre (canvasSize g)
                       (freq_end_radius g vol b) angleInDegree
      in (startPoint, endPoint))"

text \<open>
  The loop runs over the lower half of the bins; \<open>dataArray\<close> is the byte buffer of
  length \<open>FREQ_BIN_COUNT\<close>.
\<close>

definition render_spectrum :: "geometry \<Rightarrow> real \<Rightarrow> real \<Rightarrow> 8 word list \<Rightarrow> (point \<times> point) list" where
  "render_spectrum g vol angleOffset dataArray =
     map (\<lambda>i. freq_segment g vol angleOffset i (dataArray ! i)) [0..<FREQ_BIN_COUNT div 2]"

text \<open>
  The radius scale in the words of the specification: the span between the two radius
  limits, each the configured fraction of the canvas height, over 255.
\<close>

definition radiusScale_spec :: "real \<Rightarrow> real" where
  "radiusScale_spec canvasHeight =
     (canvasHeight * RADIUS_LIMIT_max - canvasHeight * RADIUS_LIMIT_min) / 255"

section \<open>Particle field\<close>

record FragmentProps =
  selfRadius :: real
  selfAngle :: real
  positionRadius :: real
  positionAngle :: real
  stepRadius :: real
  stepAngle :: real

text \<open>
  The sizes \<open>fragmentSize\<close>; its field \<open>stepRadius\<close> is named \<open>size_stepRadius\<close> here, apart
  from the field of the same name of a fragment.
\<close>

record fragmentSize =
  minSelfRadius :: real
  maxSelfRadius :: real
  minPositionRadius :: real
  maxPositionRadius :: real
  size_stepRadius :: real

definition initFragmentsSize :: "canvas_size \<Rightarrow> fragmentSize" where
  "initFragmentsSize cs =
     (let minPositionRadius' = RADIUS_LIMIT_min * height cs
      in \<lparr>minSelfRadius = FRAGMENTS_minRadius * height cs,
          maxSelfRadius = FRAGMENTS_maxRadius * height cs,
          minPositionRadius = minPositionRadius',
          maxPositionRadius = width cs / 2 - minPositionRadius',
          size_stepRadius = FRAGMENTS_stepRadius * width cs\<rparr>)"

text \<open>
  \<open>Math.random()\<close> is read from a supply \<open>rnd\<close> of numbers: the call number \<open>k\<close> returns
  \<open>rnd k\<close>. A function that draws random numbers takes the position in the supply and
  returns the position after its draws. The fields of an object literal are evaluated
  in the order they are written.
\<close>

definition spawn_initial :: "fragmentSize \<Rightarrow> (nat \<Rightarrow> real) \<Rightarrow> nat \<Rightarrow> FragmentProps \<times> nat" where
  "spawn_initial fsz rnd k =
     (\<lparr>selfRadius = rnd k * (maxSelfRadius fsz - minSelfRadius fsz) + minSelfRadius fsz,
       selfAngle = rnd (k + 1) * 360,
       positionRadius =
         rnd (k + 2) * (maxPositionRadius fsz - minPositionRadius fsz) + minPositionRadius fsz,
       positionAngle = rnd (k + 3) * 360,
       stepRadius = (rnd (k + 4) * (1 / 2) + 1 / 2) * size_stepRadius fsz,
       stepAngle = (rnd (k + 5) * 2 - 1) * FRAGMENTS_stepAngle\<rparr>,
      k + 6)"

definition spawn_recycled :: "fragmentSize \<Rightarrow> (nat \<Rightarrow> real) \<Rightarrow> nat \<Rightarrow> FragmentProps \<times> nat" where
  "spawn_recycled fsz rnd k =
     (let selfRadius' = rnd k * (maxSelfRadius fsz - minSelfRadius fsz) + minSelfRadius fsz
      in (\<lparr>selfRadius = selfRadius',
           selfAngle = rnd (k + 1) * 360,
           positionRadius = minPositionRadius fsz - selfRadius',
           positionAngle = rnd (k + 2) * 360,
           stepRadius = (rnd (k + 3) * (1 / 2) + 1 / 2) * size_stepRadius fsz,
           stepAngle = (rnd (k + 4) * 2 - 1) * FRAGMENTS_stepAngle\<rparr>,
          k + 5))"

text \<open>
  \<open>drawFragment\<close>: \<open>None\<close> when it returns \<open>false\<close> and draws nothing, \<open>Some\<close> of the three
  vertexes of the triangle it fills when it returns \<open>true\<close>.
\<close>

definition fragment_centre :: "canvas_size \<Rightarrow> FragmentProps \<Rightarrow> point" where
  "fragment_centre cs props =
     convertPolarToCartesian_centre cs (positionRadius props) (positionAngle props)"

definition drawFragment :: "canvas_size \<Rightarrow> FragmentProps \<Rightarrow> point list option" where
  "drawFragment cs props =
     (let center = fragment_centre cs props
      in if fst center + selfRadius props < 0 \<or> fst center - selfRadius props > width cs \<or>
            snd center + selfRadius props < 0 \<or> snd center - selfRadius props > height cs
         then None
         else Some
           [convertPolarToCartesian (selfRadius props) (selfAngle props) (fst center) (snd center),
            convertPolarToCartesian (selfRadius props) (120 + selfAngle props) (fst center) (snd center),
            convertPolarToCartesian (selfRadius props) (240 + selfAngle props) (fst center) (snd center)])"

text \<open>
  The loop of \<open>initFragments\<close> fills the array with \<open>n\<close> fragments, from index 0 up (it
  also draws each of them, which changes the canvas only).
\<close>

fun initFragments_loop :: "fragmentSize \<Rightarrow> (nat \<Rightarrow> real) \<Rightarrow> nat \<Rightarrow> nat \<Rightarrow> FragmentProps list \<times> nat" where
  "initFragments_loop fsz rnd k 0 = ([], k)"
| "initFragments_loop fsz rnd k (Suc n) =
     (let (f, k1) = spawn_initial fsz rnd k;
          (fs, k2) = initFragments_loop fsz rnd k1 n
      in (f # fs, k2))"

definition initFragments :: "canvas_size \<Rightarrow> (nat \<Rightarrow> real) \<Rightarrow> nat \<Rightarrow> fragmentSize \<times> FragmentProps list \<times> nat" where
  "initFragments cs rnd k =
     (let fsz = initFragmentsSize cs;
          (fs, k') = initFragments_loop fsz rnd k FRAGMENTS_count
      in (fsz, fs, k'))"

text \<open>
  The fragment loop of \<open>render\<close>, over the array from index 0 up. It returns the array
  after the pass, the fragments it has drawn with their triangles, in the order drawn,
  and the position in the random supply. A fragment that \<open>drawFragment\<close> refuses is
  replaced in its slot by a new one, and \<open>drawFragment\<close> is called on the new one.
\<close>

fun render_fragments ::
  "canvas_size \<Rightarrow> fragmentSize \<Rightarrow> (nat \<Rightarrow> real) \<Rightarrow> nat \<Rightarrow> FragmentProps list
     \<Rightarrow> FragmentProps list \<times> (FragmentProps \<times> point list) list \<times> nat" where
  "render_fragments cs fsz rnd k [] = ([], [], k)"
| "render_fragments cs fsz rnd k (p # ps) =
     (case drawFragment cs p of
        Some tri \<Rightarrow>
          (let (ps', drawn, k') = render_fragments cs fsz rnd k ps
           in (p # ps', (p, tri) # drawn, k'))
      | None \<Rightarrow>
          (let (q, k1) = spawn_recycled fsz rnd k;
               (ps', drawn, k') = render_fragments cs fsz rnd k1 ps
           in (q # ps',
               (case drawFragment cs q of Some tri \<Rightarrow> [(q, tri)] | None \<Rightarrow> []) @ drawn,
               k')))"

text \<open>The fragment step of the interval callback of \<open>startStep\<close>.\<close>

definition step_fragment :: "FragmentProps \<Rightarrow> FragmentProps" where
  "step_fragment f =
     f\<lparr>positionRadius := positionRadius f + stepRadius f,
       selfAngle := selfAngle f + stepAngle f\<rparr>"

text \<open>
  The particle field with what its callbacks read: the canvas size, the sizes of new
  fragments, the array, the rotation offset and the position in the random supply.
\<close>

record field =
  field_canvas :: canvas_size
  field_size :: fragmentSize
  fragmentsArray :: "FragmentProps list"
  angleOffset :: real
  rnd_pos :: nat

text \<open>The field after \<open>init\<close>, for a container of client width \<open>w\<close>.\<close>

definition init_field :: "(nat \<Rightarrow> real) \<Rightarrow> nat \<Rightarrow> field" where
  "init_field rnd w =
     (let cs = canvasSize (initCanvasSize (real w));
          (fsz, fs, k) = initFragments cs rnd 0
      in \<lparr>field_canvas = cs, field_size = fsz, fragmentsArray = fs, angleOffset = 0,
          rnd_pos = k\<rparr>)"

text \<open>
  What happens to the field afterwards: a logical step (the interval callback), a redraw
  pass, or a resize of the container to a client width (ignored when the width is 0).
\<close>

datatype field_event = Tick | RenderPass | Resize nat

fun field_step :: "(nat \<Rightarrow> real) \<Rightarrow> field_event \<Rightarrow> field \<Rightarrow> field" where
  "field_step rnd Tick st =
     st\<lparr>angleOffset := angleOffset st + ANGLE_STEP,
        fragmentsArray := map step_fragment (fragmentsArray st)\<rparr>"
| "field_step rnd RenderPass st =
     (let (fs, drawn, k) =
            render_fragments (field_canvas st) (field_size st) rnd (rnd_pos st) (fragmentsArray st)
      in st\<lparr>fragmentsArray := fs, rnd_pos := k\<rparr>)"
| "field_step rnd (Resize w) st =
     (if w \<noteq> 0
      then (let cs = canvasSize (initCanvasSize (real w))
            in st\<lparr>field_canvas := cs, field_size := initFragmentsSize cs\<rparr>)
      else st)"

fun field_run :: "(nat \<Rightarrow> real) \<Rightarrow> field_event list \<Rightarrow> field \<Rightarrow> field" where
  "field_run rnd [] st = st"
| "field_run rnd (e # es) st = field_run rnd es (field_step rnd e st)"

text \<open>
  The events \<open>es\<close>, run from the field \<open>st\<close>, never recycle the slot \<open>i\<close>: at every redraw
  pass among them, \<open>drawFragment\<close> accepts the fragment that the slot then holds.
\<close>

fun keeps_slot :: "(nat \<Rightarrow> real) \<Rightarrow> nat \<Rightarrow> field_event list \<Rightarrow> field \<Rightarrow> bool" where
  "keeps_slot rnd i [] st = True"
| "keeps_slot rnd i (e # es) st =
     ((if e = RenderPass
       then drawFragment (field_canvas st) (fragmentsArray st ! i) \<noteq> None
       else True)
      \<and> keeps_slot rnd i es (field_step rnd e st))"

text \<open>
  What holds of every field that \<open>init\<close> has built and the callbacks have changed, when
  the random numbers are not negative: no size is negative, and no fragment has a
  negative radius or a negative step of its position radius.
\<close>

definition field_ok :: "field \<Rightarrow> bool" where
  "field_ok st =
     (0 \<le> width (field_canvas st) \<and> 0 \<le> height (field_canvas st) \<and>
      0 \<le> minSelfRadius (field_size st) \<and>
      minSelfRadius (field_size st) \<le> maxSelfRadius (field_size st) \<and>
      0 \<le> size_stepRadius (field_size st) \<and>
      list_all (\<lambda>f. 0 \<le> selfRadius f \<and> 0 \<le> stepRadius f) (fragmentsArray st))"



section \<open>Playback controller\<close>

text \<open>
  The state the controller handlers read and write: the attributes of the audio element
  (\<open>audio.currentTime\<close>, \<open>audio.duration\<close>, \<open>audio.volume\<close>, \<open>audio.muted\<close>), the reactive
  flag \<open>isMuted\<close>, and what the handlers put on the page: the seconds handed to
  \<open>parseSecondsToTime\<close> for the label \<open>timeNow\<close>, and the percentages written into the
  styles of \<open>barPlayed\<close>, \<open>seeker\<close> and \<open>barVolumeNow\<close>. An assignment to an attribute of
  the audio element is modelled as storing the assigned value.
\<close>

record player =
  currentTime :: jsnum
  duration :: jsnum
  volume :: jsnum
  audio_muted :: bool
  isMuted :: bool
  timeNow :: jsnum
  barPlayed_width :: jsnum
  seeker_left :: jsnum
  barVolumeNow_height :: jsnum

text \<open>
  The element as \<open>initAudio\<close> leaves it: volume 0.8, not muted, no metadata yet. (The
  volume is written as the fraction \<open>8 / 10\<close>, which stands for the binary64 number
  nearest to it; nothing below depends on the difference.)
\<close>

definition initAudio :: player where
  "initAudio =
     \<lparr>currentTime = Num 0, duration = NaN, volume = Num (8 / 10),
      audio_muted = False, isMuted = False, timeNow = Num 0,
      barPlayed_width = Num 0, seeker_left = Num 0,
      barVolumeNow_height = jmul (Num (8 / 10)) (Num 100)\<rparr>"

text \<open>A pointer event on a bar: the offset of the pointer and the client size of the bar.\<close>

record bar_event =
  offsetX :: real
  offsetY :: real
  clientWidth :: nat
  clientHeight :: nat

definition seekProgress :: "bar_event \<Rightarrow> player \<Rightarrow> player" where
  "seekProgress e s =
     (let seekPercent = jdiv (Num (offsetX e)) (Num (real (clientWidth e)));
          seekTime = jfloor (jmul seekPercent (if isNaN (duration s) then Num 0 else duration s))
      in s\<lparr>timeNow := seekTime,
            barPlayed_width := jmul seekPercent (Num 100),
            seeker_left := jmul seekPercent (Num 100)\<rparr>)"

definition setProgress :: "jsnum \<Rightarrow> player \<Rightarrow> player" where
  "setProgress time s =
     (let time' = (if jlt time (Num 0) then Num 0
                   else if jgt time (duration s) then duration s
                   else time)
      in s\<lparr>currentTime := time'\<rparr>)"

definition jumpProgress :: "bar_event \<Rightarrow> player \<Rightarrow> player" where
  "jumpProgress e s =
     (let seekPercent = jdiv (Num (offsetX e)) (Num (real (clientWidth e)))
      in setProgress (jmul seekPercent (if isNaN (duration s) then Num 0 else duration s)) s)"

definition toggleMute :: "player \<Rightarrow> player" where
  "toggleMute s = s\<lparr>audio_muted := \<not> audio_muted s, isMuted := \<not> audio_muted s\<rparr>"

definition setVolume :: "jsnum \<Rightarrow> player \<Rightarrow> player" where
  "setVolume volumePercent s =
     (if jlt volumePercent (Num 0) then (if \<not> isMuted s then toggleMute s else s)
      else
        (let v = (if jgt volumePercent (Num 1) then Num 1 else volumePercent);
             s1 = (if isMuted s then toggleMute s else s)
         in s1\<lparr>volume := v, barVolumeNow_height := jmul v (Num 100)\<rparr>))"

definition jumpVolume :: "bar_event \<Rightarrow> player \<Rightarrow> player" where
  "jumpVolume e s =
     setVolume (jdiv (jsub (Num (real (clientHeight e))) (Num (offsetY e)))
                     (Num (real (clientHeight e)))) s"

text \<open>
  A wheel event, with the canvas size it is scaled by. A delta is a finite number; the
  test \<open>if (e.deltaX)\<close> holds when it is not zero.
\<close>

record wheel_event =
  deltaX :: real
  deltaY :: real

definition scrollEvent :: "wheel_event \<Rightarrow> canvas_size \<Rightarrow> player \<Rightarrow> player" where
  "scrollEvent e cs s =
     (let s1 = (if deltaX e \<noteq> 0
                then setProgress
                       (jsub (currentTime s)
                          (jmul (jdiv (Num (deltaX e)) (Num (width cs))) (duration s))) s
                else s)
      in if deltaY e \<noteq> 0
         then setVolume (jsub (volume s1) (jdiv (Num (deltaY e)) (Num (height cs)))) s1
         else s1)"

text \<open>Sequences of user gestures on the volume controls, run from a given state.\<close>

datatype volume_action = ToggleMute | SetVolume jsnum

fun run_volume :: "volume_action list \<Rightarrow> player \<Rightarrow> player" where
  "run_volume [] s = s"
| "run_volume (ToggleMute # as) s = run_volume as (toggleMute s)"
| "run_volume (SetVolume v # as) s = run_volume as (setVolume v s)"

text \<open>
  The seek preview in the words of the specification: the fraction of the track under
  the pointer, clamped to \<open>[0,1]\<close>, times the duration, an unknown duration counting as 0.
\<close>

definition seekPreview_spec :: "real \<Rightarrow> real \<Rightarrow> jsnum \<Rightarrow> jsnum" where
  "seekPreview_spec pointerX trackWidth dur =
     jmul (Num (max 0 (min 1 (pointerX / trackWidth)))) (if isNaN dur then Num 0 else dur)"

section \<open>Animation scheduler\<close>

text \<open>
  The two handles of the component and, of the browser, what they refer to: the interval
  timers that are running (each runs the step callback every 20 ms) and the animation
  frame requests that are pending (each will run \<open>render\<close> once, at the next frame).
  \<open>setInterval\<close> and \<open>requestAnimationFrame\<close> return a handle that is greater than zero and
  was never returned before; \<open>clearInterval\<close> and \<open>cancelAnimationFrame\<close> remove the timer
  or the request of the handle they are given, if there is one.
\<close>

record scheduler =
  stepEventId :: nat
  flushEventId :: nat
  intervals :: "nat list"
  frames :: "nat list"
  lastTimerId :: nat
  lastFrameId :: nat

definition setInterval :: "scheduler \<Rightarrow> nat \<times> scheduler" where
  "setInterval s =
     (let h = Suc (lastTimerId s) in (h, s\<lparr>intervals := intervals s @ [h], lastTimerId := h\<rparr>))"

definition clearInterval :: "nat \<Rightarrow> scheduler \<Rightarrow> scheduler" where
  "clearInterval h s = s\<lparr>intervals := removeAll h (intervals s)\<rparr>"

definition requestAnimationFrame :: "scheduler \<Rightarrow> nat \<times> scheduler" where
  "requestAnimationFrame s =
     (let h = Suc (lastFrameId s) in (h, s\<lparr>frames := frames s @ [h], lastFrameId := h\<rparr>))"

definition cancelAnimationFrame :: "nat \<Rightarrow> scheduler \<Rightarrow> scheduler" where
  "cancelAnimationFrame h s = s\<lparr>frames := removeAll h (frames s)\<rparr>"

definition startStep :: "scheduler \<Rightarrow> scheduler" where
  "startStep s =
     (let s1 = (if stepEventId s = 0
                then (let (h, s') = setInterval s in s'\<lparr>stepEventId := h\<rparr>)
                else s)
      in if flushEventId s1 = 0
         then (let (h, s') = requestAnimationFrame s1 in s'\<lparr>flushEventId := h\<rparr>)
         else s1)"

definition stopStep :: "scheduler \<Rightarrow> scheduler" where
  "stopStep s =
     (let s1 = (if stepEventId s \<noteq> 0
                then (clearInterval (stepEventId s) s)\<lparr>stepEventId := 0\<rparr>
                else s)
      in if flushEventId s1 \<noteq> 0
         then (cancelAnimationFrame (flushEventId s1) s1)\<lparr>flushEventId := 0\<rparr>
         else s1)"

text \<open>
  What one run of \<open>render\<close> does to the scheduler, at its end: when \<open>flushEventId\<close> is not
  zero it requests the next frame, and drops the handle of that request.
\<close>

definition render_reschedule :: "scheduler \<Rightarrow> scheduler" where
  "render_reschedule s = (if flushEventId s \<noteq> 0 then snd (requestAnimationFrame s) else s)"

text \<open>
  An animation frame: the browser takes the requests that are pending and runs the
  callback of each, in the order requested.
\<close>

definition animationFrame :: "scheduler \<Rightarrow> scheduler" where
  "animationFrame s = fold (\<lambda>_. render_reschedule) (frames s) (s\<lparr>frames := []\<rparr>)"

text \<open>
  The single redraw that the resize observer and \<open>getCoverColor\<close> ask for when no redraw
  loop is running, and the scheduler after \<open>init\<close>, which asks for one redraw.
\<close>

definition flush_once :: "scheduler \<Rightarrow> scheduler" where
  "flush_once s = (if flushEventId s = 0 then snd (requestAnimationFrame s) else s)"

definition init_scheduler :: scheduler where
  "init_scheduler =
     snd (requestAnimationFrame
       \<lparr>stepEventId = 0, flushEventId = 0, intervals = [], frames = [],
        lastTimerId = 0, lastFrameId = 0\<rparr>)"

text \<open>
  The events that reach the scheduler: the \<open>play\<close> and \<open>pause\<close> events of the audio
  element, whose listeners call \<open>startStep\<close> and \<open>stopStep\<close>, an animation frame, and a
  request for a single redraw.
\<close>

datatype sched_event = Play | Pause | Frame | Flush

fun sched_step :: "sched_event \<Rightarrow> scheduler \<Rightarrow> scheduler" where
  "sched_step Play s = startStep s"
| "sched_step Pause s = stopStep s"
| "sched_step Frame s = animationFrame s"
| "sched_step Flush s = flush_once s"

fun sched_run :: "sched_event list \<Rightarrow> scheduler \<Rightarrow> scheduler" where
  "sched_run [] s = s"
| "sched_run (e # es) s = sched_run es (sched_step e s)"

text \<open>
  A track that was played and paused again: the component is mounted, a frame passes,
  the track plays, a frame passes, the track is paused.
\<close>

definition paused_after_playing :: scheduler where
  "paused_after_playing = sched_run [Frame, Play, Frame, Pause] init_scheduler"

text \<open>
  The logical stepper is consistent when the handle is zero and no interval timer runs,
  or the handle is not zero and the one timer that runs is the timer of the handle.
\<close>

definition stepper_ok :: "scheduler \<Rightarrow> bool" where
  "stepper_ok s =
     (stepEventId s \<le> lastTimerId s \<and>
      intervals s = (if stepEventId s = 0 then [] else [stepEventId s]))"

section \<open>Palette adapter\<close>

text \<open>
  A colour is the triple of its channels. \<open>rgbToHsl\<close> and \<open>hslToRgb\<close> come from the module
  \<open>utils/color\<close> and are parameters here. An entry of the palette is \<open>None\<close> where the
  array holds \<open>undefined\<close>, which is what reading the first entry of an empty array
  gives; spreading \<open>undefined\<close> into the arguments of \<open>rgbToHsl\<close> raises a \<open>TypeError\<close>.
  A role colour is the constructor of its style string: \<open>rgb(...)\<close>, \<open>rgba(..., 0.4)\<close>, or
  a literal of the defaults. \<open>getCoverColor\<close> is modelled by the colours it computes from
  the palette that the extraction returns; it then copies the spectrum colour into the
  stroke style, the background colour into the wrapper, and asks for a single redraw
  (\<open>flush_once\<close> above).
\<close>

type_synonym rgb = "real \<times> real \<times> real"

datatype js_error = TypeError

datatype css_color = Hex string | Rgb rgb | Rgba rgb real

record colors =
  bg :: css_color
  freq :: css_color
  fragments :: css_color

definition default_colors :: colors where
  "default_colors = \<lparr>bg = Hex ''#333'', freq = Hex ''#fff'', fragments = Hex ''#fff6''\<rparr>"

definition changeColor ::
  "(rgb \<Rightarrow> real \<times> real \<times> real) \<Rightarrow> (real \<Rightarrow> real \<Rightarrow> real \<Rightarrow> rgb) \<Rightarrow> rgb option \<Rightarrow> bool
     \<Rightarrow> js_error + rgb" where
  "changeColor rgbToHsl hslToRgb rgbColor isDarken =
     (case rgbColor of
        None \<Rightarrow> Inl TypeError
      | Some c \<Rightarrow>
          (let (h, s, l) = rgbToHsl c
           in Inr (hslToRgb h s (if isDarken then 3 / 10 else 85 / 100))))"

definition js_index :: "'a option list \<Rightarrow> nat \<Rightarrow> 'a option" where
  "js_index xs i = (if i < length xs then xs ! i else None)"

function ensure3 :: "rgb option list \<Rightarrow> rgb option list" where
  "ensure3 palette =
     (if length palette < 3 then ensure3 (palette @ [js_index palette 0]) else palette)"
  by pat_completeness auto
termination
  by (relation "measure (\<lambda>palette. 3 - length palette)") auto

definition getCoverColor ::
  "(rgb \<Rightarrow> real \<times> real \<times> real) \<Rightarrow> (real \<Rightarrow> real \<Rightarrow> real \<Rightarrow> rgb) \<Rightarrow> rgb option list
     \<Rightarrow> js_error + colors" where
  "getCoverColor rgbToHsl hslToRgb palette0 =
     (let palette = ensure3 palette0
      in case changeColor rgbToHsl hslToRgb (js_index palette 0) True of
           Inl e \<Rightarrow> Inl e
         | Inr c0 \<Rightarrow>
             (case changeColor rgbToHsl hslToRgb (js_index palette 1) False of
                Inl e \<Rightarrow> Inl e
              | Inr c1 \<Rightarrow>
                  (case changeColor rgbToHsl hslToRgb (js_index palette 2) False of
                     Inl e \<Rightarrow> Inl e
                   | Inr c2 \<Rightarrow>
                       Inr \<lparr>bg = Rgb c0, freq = Rgb c1, fragments = Rgba c2 (4 / 10)\<rparr>)))"

section \<open>Properties of the numbers\<close>

text \<open>Rounding to the nearest integer, and the exponent of a number.\<close>

lemma round_half_even_int: "round_half_even (of_int m) = m"
  by (simp add: round_half_even_def)

lemma round_half_even_error: "\<bar>of_int (round_half_even q) - q\<bar> \<le> 1 / 2"
  unfolding round_half_even_def Let_def by (auto; linarith)

lemma round_half_even_mono_int:
  assumes "of_int m \<le> q"
  shows "m \<le> round_half_even q"
proof -
  have "m \<le> \<lfloor>q\<rfloor>" using assms by (simp add: le_floor_iff)
  then show ?thesis
    unfolding round_half_even_def Let_def by auto
qed

lemma round_half_even_le_int:
  assumes "q \<le> of_int m"
  shows "round_half_even q \<le> m"
proof (cases "q = of_int m")
  case True
  then show ?thesis by (simp add: round_half_even_int)
next
  case False
  with assms have "q < of_int m" by simp
  then have "\<lfloor>q\<rfloor> < m" by (simp add: floor_less_iff)
  then show ?thesis
    unfolding round_half_even_def Let_def by auto
qed

lemma double_exponent_eq:
  assumes "2 powr of_int e \<le> \<bar>x\<bar>" and "\<bar>x\<bar> < 2 powr of_int (e + 1)" and "- 1022 \<le> e"
  shows "double_exponent x = e"
proof -
  have "0 < \<bar>x\<bar>"
    using assms(1) powr_gt_zero [of 2 "of_int e"] by linarith
  then have "\<lfloor>log 2 \<bar>x\<bar>\<rfloor> = e"
    using assms(1,2) by (simp add: floor_log_eq_powr_iff)
  then show ?thesis
    using assms(3) by (simp add: double_exponent_def)
qed

lemma double_exponent_upper: "x \<noteq> 0 \<Longrightarrow> \<bar>x\<bar> < 2 powr of_int (double_exponent x + 1)"
proof -
  assume "x \<noteq> 0"
  then have pos: "0 < \<bar>x\<bar>" by simp
  have "\<bar>x\<bar> < 2 powr of_int (\<lfloor>log 2 \<bar>x\<bar>\<rfloor> + 1)"
    using floor_log_eq_powr_iff [OF pos, of 2 "\<lfloor>log 2 \<bar>x\<bar>\<rfloor>"] by simp
  also have "\<dots> \<le> 2 powr of_int (double_exponent x + 1)"
    by (simp add: double_exponent_def)
  finally show ?thesis .
qed

lemma double_exponent_lower:
  assumes "x \<noteq> 0" and "- 1022 < double_exponent x"
  shows "2 powr of_int (double_exponent x) \<le> \<bar>x\<bar>"
proof -
  have pos: "0 < \<bar>x\<bar>" using assms(1) by simp
  have "double_exponent x = \<lfloor>log 2 \<bar>x\<bar>\<rfloor>"
    using assms(2) by (simp add: double_exponent_def max_def split: if_splits)
  then show ?thesis
    using floor_log_eq_powr_iff [OF pos, of 2 "\<lfloor>log 2 \<bar>x\<bar>\<rfloor>"] by simp
qed

text \<open>The rounded value, when the exponent is at most 1022: no overflow.\<close>

lemma round_half_even_abs_le:
  assumes "\<bar>q\<bar> \<le> of_int m"
  shows "\<bar>of_int (round_half_even q) :: real\<bar> \<le> of_int m"
proof -
  have "q \<le> of_int m" and "of_int (- m) \<le> q"
    using assms by simp_all
  then have "round_half_even q \<le> m" and "- m \<le> round_half_even q"
    using round_half_even_le_int round_half_even_mono_int by blast+
  then have "\<bar>round_half_even q\<bar> \<le> m"
    by simp
  then show ?thesis
    by (metis of_int_abs of_int_le_iff)
qed

lemma powr_split_53: "(2::real) powr of_int (e + 1) = 2 ^ 53 * 2 powr of_int (e - 52)"
proof -
  have "(of_int (e + 1) :: real) = 53 + of_int (e - 52)"
    by simp
  then have "(2::real) powr of_int (e + 1) = 2 powr (53 + of_int (e - 52))"
    by (simp only:)
  also have "\<dots> = 2 powr 53 * 2 powr of_int (e - 52)"
    by (rule powr_add)
  finally show ?thesis by simp
qed

lemma powr_split_52: "(2::real) powr of_int e = 2 ^ 52 * 2 powr of_int (e - 52)"
proof -
  have "(of_int e :: real) = 52 + of_int (e - 52)"
    by simp
  then have "(2::real) powr of_int e = 2 powr (52 + of_int (e - 52))"
    by (simp only:)
  also have "\<dots> = 2 powr 52 * 2 powr of_int (e - 52)"
    by (rule powr_add)
  finally show ?thesis by simp
qed

text \<open>The rounded value, when the exponent is at most 1022: no overflow.\<close>

lemma round_double_finite:
  assumes "x \<noteq> 0" and "double_exponent x \<le> 1022"
  shows "round_double x =
           Num (of_int (round_half_even (x / 2 powr of_int (double_exponent x - 52)))
                  * 2 powr of_int (double_exponent x - 52))"
    and "\<bar>of_int (round_half_even (x / 2 powr of_int (double_exponent x - 52)))
            * 2 powr of_int (double_exponent x - 52)\<bar>
          \<le> (2::real) powr of_int (double_exponent x + 1)"
proof -
  define u :: real where "u = 2 powr of_int (double_exponent x - 52)"
  define q where "q = x / u"
  define m :: real where "m = of_int (round_half_even q)"
  have u: "0 < u" by (simp add: u_def)
  have split: "2 powr of_int (double_exponent x + 1) = 2 ^ 53 * u"
    unfolding u_def by (rule powr_split_53)
  have "\<bar>x\<bar> < 2 ^ 53 * u"
    using double_exponent_upper [OF assms(1)] split by simp
  then have "\<bar>x\<bar> / u < 2 ^ 53"
    using u by (simp add: pos_divide_less_eq)
  then have "\<bar>q\<bar> \<le> of_int (2 ^ 53)"
    using u by (simp add: q_def)
  then have "\<bar>m\<bar> \<le> of_int (2 ^ 53)"
    unfolding m_def by (rule round_half_even_abs_le)
  then have "\<bar>m * u\<bar> \<le> 2 ^ 53 * u"
    using u by (simp add: abs_mult mult_right_mono)
  then have bound: "\<bar>m * u\<bar> \<le> 2 powr of_int (double_exponent x + 1)"
    using split by simp
  also have "\<dots> \<le> 2 powr 1023"
    using assms(2) by (intro powr_mono) simp_all
  also have "\<dots> < 2 powr 1024"
    by (intro powr_less_mono) simp_all
  finally have "\<not> 2 powr 1024 \<le> \<bar>m * u\<bar>"
    by simp
  then have "round_double x = Num (m * u)"
    using assms(1) by (simp add: round_double_def Let_def m_def q_def u_def)
  then show "round_double x =
           Num (of_int (round_half_even (x / 2 powr of_int (double_exponent x - 52)))
                  * 2 powr of_int (double_exponent x - 52))"
    by (simp add: m_def q_def u_def)
  show "\<bar>of_int (round_half_even (x / 2 powr of_int (double_exponent x - 52)))
            * 2 powr of_int (double_exponent x - 52)\<bar>
          \<le> (2::real) powr of_int (double_exponent x + 1)"
    using bound by (simp add: m_def q_def u_def)
qed

lemma round_double_eval:
  assumes "2 powr of_int e \<le> \<bar>x\<bar>" and "\<bar>x\<bar> < 2 powr of_int (e + 1)"
    and "- 1022 \<le> e" and "e \<le> 1022"
  shows "round_double x =
           Num (of_int (round_half_even (x / 2 powr of_int (e - 52))) * 2 powr of_int (e - 52))"
proof -
  have e: "double_exponent x = e"
    using assms(1-3) by (rule double_exponent_eq)
  have "x \<noteq> 0"
    using assms(1) powr_gt_zero [of 2 "of_int e"] by auto
  then show ?thesis
    using round_double_finite(1) [of x] e assms(4) by simp
qed

lemma round_double_zero: "round_double 0 = Num 0"
  by (simp add: round_double_def)

text \<open>
  A number of magnitude at most \<open>B\<close>, with \<open>B\<close> between \<open>2^-1022\<close> and \<open>2^1000\<close>, is rounded to
  a number, and the rounding error is at most \<open>B / 2^53\<close>.
\<close>

lemma round_double_error:
  assumes "\<bar>x\<bar> \<le> B" and "2 powr (- 1022) \<le> B" and "B \<le> 2 powr 1000"
  shows "\<exists>y. round_double x = Num y \<and> \<bar>y - x\<bar> \<le> B / 2 ^ 53"
proof (cases "x = 0")
  case True
  have "0 \<le> B" using assms(1) by simp
  then show ?thesis
    using True by (simp add: round_double_zero)
next
  case False
  define e where "e = double_exponent x"
  define u :: real where "u = 2 powr of_int (e - 52)"
  define m :: real where "m = of_int (round_half_even (x / u))"
  have u: "0 < u" by (simp add: u_def)
  have small: "e \<le> 1022"
  proof (rule ccontr)
    assume "\<not> e \<le> 1022"
    then have big: "1023 \<le> e" by simp
    then have "2 powr of_int e \<le> \<bar>x\<bar>"
      unfolding e_def using False by (intro double_exponent_lower) simp_all
    moreover have "(2::real) powr 1023 \<le> 2 powr of_int e"
      using big by (intro powr_mono) simp_all
    moreover have "(2::real) powr 1000 < 2 powr 1023"
      by (intro powr_less_mono) simp_all
    ultimately show False
      using assms(1,3) by linarith
  qed
  have y: "round_double x = Num (m * u)"
    using round_double_finite(1) [OF False] small by (simp add: e_def u_def m_def)
  have "\<bar>m - x / u\<bar> \<le> 1 / 2"
    unfolding m_def by (rule round_half_even_error)
  then have "\<bar>m - x / u\<bar> * u \<le> 1 / 2 * u"
    using u by (intro mult_right_mono) simp_all
  moreover have "\<bar>m - x / u\<bar> * u = \<bar>m * u - x\<bar>"
  proof -
    have "m * u - x = (m - x / u) * u"
      using u by (simp add: field_simps)
    then show ?thesis
      using u by (simp add: abs_mult)
  qed
  ultimately have half: "\<bar>m * u - x\<bar> \<le> u / 2"
    by simp
  have "u \<le> B / 2 ^ 52"
  proof (cases "- 1022 < e")
    case True
    then have "2 powr of_int e \<le> \<bar>x\<bar>"
      unfolding e_def using False by (intro double_exponent_lower) simp_all
    then have "2 ^ 52 * u \<le> B"
      using assms(1) powr_split_52 [of e] by (simp add: u_def)
    then show ?thesis
      by (simp add: field_simps)
  next
    case False
    have "- 1022 \<le> e"
      by (simp add: e_def double_exponent_def)
    with False have e: "e = - 1022" by simp
    have "2 ^ 52 * u = 2 powr (- 1022)"
      using powr_split_52 [of e] by (simp add: u_def e)
    then have "2 ^ 52 * u \<le> B"
      using assms(2) by simp
    then show ?thesis
      by (simp add: field_simps)
  qed
  then have "u / 2 \<le> B / 2 ^ 53"
    by simp
  with half y show ?thesis
    by (intro exI [of _ "m * u"]) simp
qed


lemma round_double_relative:
  assumes "2 powr (- 1022) \<le> \<bar>x\<bar>" and "\<bar>x\<bar> \<le> 2 powr 1000"
  shows "\<exists>y. round_double x = Num y \<and> \<bar>y - x\<bar> \<le> \<bar>x\<bar> / 2 ^ 53"
  using round_double_error [of x "\<bar>x\<bar>"] assms by simp

lemma round_double_negative:
  assumes "- c \<le> x" and "x \<le> - b" and "2 powr (- 1022) \<le> b" and "c \<le> 2 powr 1000"
  shows "\<exists>y. round_double x = Num y \<and> - (2 * c) \<le> y \<and> y \<le> - (b / 2)"
proof -
  have b: "0 < b"
    using assms(3) powr_gt_zero [of 2 "- 1022"] by linarith
  have x: "\<bar>x\<bar> = - x" and "b \<le> \<bar>x\<bar>" and "\<bar>x\<bar> \<le> c"
    using assms(1,2) b by simp_all
  then obtain y where y: "round_double x = Num y" and err: "\<bar>y - x\<bar> \<le> \<bar>x\<bar> / 2 ^ 53"
    using round_double_relative [of x] assms(3,4) by force
  have "\<bar>x\<bar> / 2 ^ 53 \<le> \<bar>x\<bar> / 2"
    by (intro divide_left_mono) simp_all
  with err have "\<bar>y - x\<bar> \<le> \<bar>x\<bar> / 2"
    by linarith
  then have "- (2 * c) \<le> y" and "y \<le> - (b / 2)"
    using x \<open>b \<le> \<bar>x\<bar>\<close> \<open>\<bar>x\<bar> \<le> c\<close> by (simp_all add: abs_le_iff)
  with y show ?thesis by blast
qed

lemma round_double_one: "round_double 1 = Num 1"
  using round_double_eval [of 0 1]
  by (simp add: round_half_even_def powr_neg_numeral)

lemma round_double_360: "round_double 360 = Num 360"
  using round_double_eval [of 8 360]
  by (simp add: round_half_even_def powr_neg_numeral)

text \<open>
  A number half way between two binary64 numbers goes to the even one: \<open>2^53 + 1\<close> is
  rounded to \<open>2^53\<close> and \<open>2^53 + 3\<close> to \<open>2^53 + 4\<close>.
\<close>

lemma round_double_ties:
  "round_double (2 ^ 53 + 1) = Num (2 ^ 53)"
  "round_double (2 ^ 53 + 3) = Num (2 ^ 53 + 4)"
  using round_double_eval [of 53 "2 ^ 53 + 1"] round_double_eval [of 53 "2 ^ 53 + 3"]
  by (simp_all add: round_half_even_def)

text \<open>Operations with \<open>NaN\<close> give \<open>NaN\<close>.\<close>

lemma jmul_NaN: "jmul x NaN = NaN"
  by (cases x) simp_all

text \<open>Some roundings that the examples below use.\<close>

lemma round_double_quarter: "round_double (1 / 4) = Num (1 / 4)"
  using round_double_eval [of "- 2" "1 / 4"]
  by (simp add: round_half_even_def powr_neg_numeral)

lemma round_double_30: "round_double 30 = Num 30"
  using round_double_eval [of 4 30]
  by (simp add: round_half_even_def powr_neg_numeral)

lemma round_double_120: "round_double 120 = Num 120"
  using round_double_eval [of 6 120]
  by (simp add: round_half_even_def powr_neg_numeral)

lemma round_double_7_10: "round_double (7 / 10) = Num (3152519739159347 / 4503599627370496)"
  using round_double_eval [of "- 1" "7 / 10"]
  by (simp add: round_half_even_def powr_neg_numeral)

lemma round_double_126: "round_double (141863388262170615 / 1125899906842624) = Num (8866461766385663 / 70368744177664)"
  using round_double_eval [of 6 "141863388262170615 / 1125899906842624"]
  by (simp add: round_half_even_def powr_neg_numeral)

lemma round_double_301_200: "round_double (301 / 200) = Num (1694479359798149 / 1125899906842624)"
  using round_double_eval [of 0 "301 / 200"]
  by (simp add: round_half_even_def powr_neg_numeral)

lemma round_double_180_6:
  "round_double (25417190396972235 / 140737488355328) = Num (6354297599243059 / 35184372088832)"
  using round_double_eval [of 7 "25417190396972235 / 140737488355328"]
  by (simp add: round_half_even_def powr_neg_numeral)

lemma round_double_150_5:
  "round_double (42361983994953725 / 281474976710656) = Num (301 / 2)"
  using round_double_eval [of 7 "42361983994953725 / 281474976710656"]
  by (simp add: round_half_even_def powr_neg_numeral)

section \<open>Properties of the geometric projection\<close>

text \<open>
  In exact arithmetic the projection is periodic in its angle, with the period 360, and
  it is the function \<open>x = cx + r cos((\<theta> - 90) \<pi> / 180)\<close>,
  \<open>y = cy + r sin((\<theta> - 90) \<pi> / 180)\<close>.
\<close>

lemma convertPolarToCartesian_exact:
  "convertPolarToCartesian r (\<theta> + 360) cx cy = convertPolarToCartesian r \<theta> cx cy
   \<and> convertPolarToCartesian r \<theta> cx cy =
       (cx + r * cos ((\<theta> - 90) * pi / 180), cy + r * sin ((\<theta> - 90) * pi / 180))"
proof -
  have turn: "(\<theta> + 360 - 90) * (pi / 180) = (\<theta> - 90) * (pi / 180) + 2 * pi"
    by (simp add: field_simps)
  have "cos ((\<theta> + 360 - 90) * (pi / 180)) = cos ((\<theta> - 90) * (pi / 180))"
    unfolding turn by simp
  moreover have "sin ((\<theta> + 360 - 90) * (pi / 180)) = sin ((\<theta> - 90) * (pi / 180))"
    unfolding turn by simp
  ultimately show ?thesis
    by (simp add: convertPolarToCartesian_def Let_def)
qed

text \<open>Bounds of \<open>\<pi>\<close> to seventeen digits, from the formula of Machin.\<close>

lemma arctan_partial_sums:
  assumes "0 \<le> x" and "x \<le> 1"
  shows "(\<Sum>k<2 * n. (- 1) ^ k * (1 / real (k * 2 + 1) * x ^ (k * 2 + 1))) \<le> arctan x"
    and "arctan x \<le> (\<Sum>k<2 * n + 1. (- 1) ^ k * (1 / real (k * 2 + 1) * x ^ (k * 2 + 1)))"
proof -
  define a where "a k = 1 / real (k * 2 + 1) * x ^ (k * 2 + 1)" for k
  have zero: "a \<longlonglongrightarrow> 0"
    unfolding a_def using assms by (intro zeroseq_arctan_series) simp
  have nonneg: "0 \<le> a k" for k
    unfolding a_def using assms(1) by simp
  have decr: "a (Suc k) \<le> a k" for k
  proof -
    have "x ^ (Suc k * 2 + 1) \<le> x ^ (k * 2 + 1)"
      using assms by (intro power_decreasing) simp_all
    moreover have "1 / real (Suc k * 2 + 1) \<le> 1 / real (k * 2 + 1)"
      by (simp add: field_simps)
    ultimately show ?thesis
      unfolding a_def using assms(1) by (intro mult_mono) simp_all
  qed
  have series: "arctan x = (\<Sum>k. (- 1) ^ k * a k)"
    unfolding a_def using assms by (intro arctan_series) simp
  show "(\<Sum>k<2 * n. (- 1) ^ k * (1 / real (k * 2 + 1) * x ^ (k * 2 + 1))) \<le> arctan x"
    using summable_Leibniz'(2) [OF zero nonneg decr, of n] series
    by (simp add: a_def)
  show "arctan x \<le> (\<Sum>k<2 * n + 1. (- 1) ^ k * (1 / real (k * 2 + 1) * x ^ (k * 2 + 1)))"
    using summable_Leibniz'(4) [OF zero nonneg decr, of n] series
    by (simp add: a_def)
qed

lemma pi_machin: "pi = 16 * arctan (1 / 5) - 4 * arctan (1 / 239)"
  using machin by simp

lemma pi_lower: "31415926535897932 / 10000000000000000 < pi"
proof -
  have "(\<Sum>k<2 * 7. (- 1) ^ k * (1 / real (k * 2 + 1) * (1 / 5) ^ (k * 2 + 1))) \<le> arctan (1 / 5)"
    by (rule arctan_partial_sums) simp_all
  moreover have "arctan (1 / 239)
      \<le> (\<Sum>k<2 * 2 + 1. (- 1) ^ k * (1 / real (k * 2 + 1) * (1 / 239) ^ (k * 2 + 1)))"
    by (rule arctan_partial_sums) simp_all
  ultimately show ?thesis
    unfolding pi_machin by (simp add: eval_nat_numeral)
qed

lemma pi_upper: "pi < 31415926535897933 / 10000000000000000"
proof -
  have "arctan (1 / 5)
      \<le> (\<Sum>k<2 * 6 + 1. (- 1) ^ k * (1 / real (k * 2 + 1) * (1 / 5) ^ (k * 2 + 1)))"
    by (rule arctan_partial_sums) simp_all
  moreover have "(\<Sum>k<2 * 2. (- 1) ^ k * (1 / real (k * 2 + 1) * (1 / 239) ^ (k * 2 + 1)))
      \<le> arctan (1 / 239)"
    by (rule arctan_partial_sums) simp_all
  ultimately show ?thesis
    unfolding pi_machin by (simp add: eval_nat_numeral)
qed

text \<open>A small angle that is not negative has a sine of at least half the angle.\<close>

lemma sin_ge_half:
  assumes "0 \<le> t" and "t \<le> 1"
  shows "t / 2 \<le> sin (t::real)"
proof -
  have sum: "(\<Sum>m<3. sin_coeff m * t ^ m) = t"
    by (simp add: sin_coeff_def eval_nat_numeral)
  have "\<bar>sin t - (\<Sum>m<3. sin_coeff m * t ^ m)\<bar> \<le> inverse (fact 3) * \<bar>t\<bar> ^ 3"
    by (rule Maclaurin_sin_bound)
  then have "\<bar>sin t - t\<bar> \<le> inverse (fact 3) * \<bar>t\<bar> ^ 3"
    by (simp only: sum)
  moreover have "inverse (fact 3) * \<bar>t\<bar> ^ 3 = t ^ 3 / 6"
    using assms(1) by (simp add: fact_numeral)
  moreover have "t ^ 3 \<le> t"
    using assms power_decreasing [of 1 3 t] by simp
  ultimately show ?thesis
    by linarith
qed

text \<open>The sine of the binary64 number nearest to two \<open>\<pi>\<close> is negative, and not tiny.\<close>

lemma sin_two_pi_double: "sin (884279719003555 / 140737488355328 :: real) \<le> - (1 / 2 ^ 54)"
proof -
  define P :: real where "P = 884279719003555 / 281474976710656"
  define t where "t = 2 * pi - 2 * P"
  have below: "P + 1 / 2 ^ 54 \<le> pi"
    using pi_lower by (simp add: P_def)
  have "0 \<le> t" and "t \<le> 1"
    using below pi_upper by (simp_all add: t_def P_def)
  then have "t / 2 \<le> sin t"
    by (rule sin_ge_half)
  moreover have "sin (2 * P) = - sin t"
    by (simp add: t_def)
  moreover have "1 / 2 ^ 54 \<le> t / 2"
    using below by (simp add: t_def)
  ultimately have "sin (2 * P) \<le> - (1 / 2 ^ 54)"
    by simp
  then show ?thesis
    by (simp add: P_def)
qed

text \<open>
  The factor \<open>Math.PI / 180\<close> in binary64, and the angle of 360 degrees in radians: the
  binary64 number nearest to two \<open>\<pi>\<close>, which is twice \<open>Math.PI\<close>.
\<close>

lemma round_double_degree:
  "round_double (Math_PI / 180) = Num (5030569068109113 / 288230376151711744)"
  using round_double_eval [of "- 6" "Math_PI / 180"]
  by (simp add: round_half_even_def powr_neg_numeral Math_PI_def)

lemma round_double_turn:
  "round_double (226375608064910085 / 36028797018963968)
     = Num (884279719003555 / 140737488355328)"
  using round_double_eval [of 2 "226375608064910085 / 36028797018963968"]
  by (simp add: round_half_even_def powr_neg_numeral)

text \<open>
  The accuracy of the projection in binary64. Cosine and sine change at most as fast as
  their argument, and the factor \<open>Math.PI / 180\<close> in binary64 is within \<open>2^-58\<close> of the
  exact factor.
\<close>

lemma cos_lipschitz: "\<bar>cos a - cos b\<bar> \<le> \<bar>a - b\<bar>" for a b :: real
proof -
  have "\<bar>cos a - cos b\<bar> = 2 * \<bar>sin ((a + b) / 2)\<bar> * \<bar>sin ((b - a) / 2)\<bar>"
    by (simp add: cos_diff_cos abs_mult)
  also have "\<dots> \<le> 2 * 1 * \<bar>(b - a) / 2\<bar>"
    by (intro mult_mono abs_sin_x_le_abs_x) simp_all
  finally show ?thesis by simp
qed

lemma sin_lipschitz: "\<bar>sin a - sin b\<bar> \<le> \<bar>a - b\<bar>" for a b :: real
proof -
  have "\<bar>sin a - sin b\<bar> = 2 * \<bar>sin ((a - b) / 2)\<bar> * \<bar>cos ((a + b) / 2)\<bar>"
    by (simp add: sin_diff_sin abs_mult)
  also have "\<dots> \<le> 2 * \<bar>(a - b) / 2\<bar> * 1"
    by (intro mult_mono abs_sin_x_le_abs_x) simp_all
  finally show ?thesis by simp
qed

lemma abs_diff_mult_right: "\<bar>a * k - b * k\<bar> = \<bar>a - b\<bar> * \<bar>k\<bar>" for a b k :: real
  by (simp only: abs_mult [symmetric] left_diff_distrib)

lemma abs_diff_mult_left: "\<bar>r * a - r * b\<bar> = \<bar>r\<bar> * \<bar>a - b\<bar>" for a b r :: real
  by (simp only: abs_mult [symmetric] right_diff_distrib)

lemma degree_double_error:
  "\<bar>5030569068109113 / 288230376151711744 - pi / 180\<bar> \<le> 1 / 2 ^ 58"
  using pi_lower pi_upper by (simp add: abs_le_iff)

text \<open>The angle in radians, in binary64 and exactly.\<close>

lemma double_angle:
  assumes "\<bar>\<theta>\<bar> \<le> 2 ^ 20"
  shows "\<exists>a. jmul (jsub (Num \<theta>) (Num 90)) (jdiv (Num Math_PI) (Num 180)) = Num a
           \<and> \<bar>a - (\<theta> - 90) * (pi / 180)\<bar> \<le> 1 / 2 ^ 35"
proof -
  define k :: real where "k = 5030569068109113 / 288230376151711744"
  have k: "0 \<le> k" "k \<le> 1 / 2 ^ 5" and kerr: "\<bar>k - pi / 180\<bar> \<le> 1 / 2 ^ 58"
    using degree_double_error by (simp_all add: k_def)
  have x0: "\<bar>\<theta> - 90\<bar> \<le> 2 ^ 21"
    using assms by simp
  obtain d where d: "round_double (\<theta> + - 90) = Num d" and derr: "\<bar>d - (\<theta> - 90)\<bar> \<le> 1 / 2 ^ 32"
    using round_double_error [of "\<theta> + - 90" "2 ^ 21"] x0
    by (auto simp add: powr_neg_numeral)
  have dabs: "\<bar>d\<bar> \<le> 2 ^ 22"
    using derr x0 by (simp add: abs_if split: if_splits)
  have "\<bar>d * k\<bar> \<le> 2 ^ 22 * (1 / 2 ^ 5)"
    unfolding abs_mult using dabs k by (intro mult_mono) simp_all
  then have x1: "\<bar>d * k\<bar> \<le> 2 ^ 17"
    by simp
  obtain a where a: "round_double (d * k) = Num a" and aerr: "\<bar>a - d * k\<bar> \<le> 1 / 2 ^ 36"
    using round_double_error [of "d * k" "2 ^ 17"] x1
    by (auto simp add: powr_neg_numeral)
  have "\<bar>d * k - (\<theta> - 90) * k\<bar> = \<bar>d - (\<theta> - 90)\<bar> * k"
    using k(1) by (simp only: abs_diff_mult_right abs_of_nonneg)
  also have "\<dots> \<le> 1 / 2 ^ 32 * (1 / 2 ^ 5)"
    using derr k by (intro mult_mono) simp_all
  finally have e1: "\<bar>d * k - (\<theta> - 90) * k\<bar> \<le> 1 / 2 ^ 37"
    by simp
  have "\<bar>(\<theta> - 90) * k - (\<theta> - 90) * (pi / 180)\<bar> = \<bar>\<theta> - 90\<bar> * \<bar>k - pi / 180\<bar>"
    by (rule abs_diff_mult_left)
  also have "\<dots> \<le> 2 ^ 21 * (1 / 2 ^ 58)"
    using x0 kerr by (intro mult_mono) simp_all
  finally have e2: "\<bar>(\<theta> - 90) * k - (\<theta> - 90) * (pi / 180)\<bar> \<le> 1 / 2 ^ 37"
    by simp
  have "\<bar>a - (\<theta> - 90) * (pi / 180)\<bar>
          \<le> \<bar>a - d * k\<bar> + \<bar>d * k - (\<theta> - 90) * k\<bar>
              + \<bar>(\<theta> - 90) * k - (\<theta> - 90) * (pi / 180)\<bar>"
    by linarith
  also have "\<dots> \<le> 1 / 2 ^ 36 + 1 / 2 ^ 37 + 1 / 2 ^ 37"
    using aerr e1 e2 by (intro add_mono)
  finally have "\<bar>a - (\<theta> - 90) * (pi / 180)\<bar> \<le> 1 / 2 ^ 35"
    by simp
  moreover have "jmul (jsub (Num \<theta>) (Num 90)) (jdiv (Num Math_PI) (Num 180)) = Num a"
    using d a by (simp add: jsub_def round_double_degree k_def)
  ultimately show ?thesis by blast
qed

text \<open>
  One coordinate: the rounded product of the radius and the rounded cosine or sine,
  plus the offset, rounded; \<open>fa\<close> is the cosine or sine of the binary64 angle and \<open>f\<alpha>\<close> the
  one of the exact angle.
\<close>

lemma double_coordinate:
  assumes "\<bar>fa\<bar> \<le> 1" and "\<bar>fa - f\<alpha>\<bar> \<le> 1 / 2 ^ 35"
    and "\<bar>r\<bar> \<le> 2 ^ 12" and "\<bar>c0\<bar> \<le> 2 ^ 12"
  shows "\<exists>x. jadd (jmul (Num r) (round_double fa)) (Num c0) = Num x
           \<and> \<bar>x - (r * f\<alpha> + c0)\<bar> \<le> 1 / 2 ^ 20"
proof -
  obtain c where c: "round_double fa = Num c" and cerr: "\<bar>c - fa\<bar> \<le> 1 / 2 ^ 53"
    using round_double_error [of fa 1] assms(1)
    by (auto simp add: powr_neg_numeral)
  have "\<bar>c - f\<alpha>\<bar> \<le> \<bar>c - fa\<bar> + \<bar>fa - f\<alpha>\<bar>"
    by linarith
  also have "\<dots> \<le> 1 / 2 ^ 53 + 1 / 2 ^ 35"
    using cerr assms(2) by (intro add_mono)
  finally have c34: "\<bar>c - f\<alpha>\<bar> \<le> 1 / 2 ^ 34"
    by simp
  have "\<bar>c\<bar> \<le> \<bar>c - fa\<bar> + \<bar>fa\<bar>"
    by linarith
  also have "\<dots> \<le> 1 / 2 ^ 53 + 1"
    using cerr assms(1) by (intro add_mono)
  finally have cabs: "\<bar>c\<bar> \<le> 2"
    by simp
  have "\<bar>r * c\<bar> \<le> 2 ^ 12 * 2"
    unfolding abs_mult using assms(3) cabs by (intro mult_mono) simp_all
  then have x2: "\<bar>r * c\<bar> \<le> 2 ^ 13"
    by simp
  obtain p where p: "round_double (r * c) = Num p" and perr: "\<bar>p - r * c\<bar> \<le> 1 / 2 ^ 40"
    using round_double_error [of "r * c" "2 ^ 13"] x2
    by (auto simp add: powr_neg_numeral)
  have "\<bar>r * c - r * f\<alpha>\<bar> = \<bar>r\<bar> * \<bar>c - f\<alpha>\<bar>"
    by (rule abs_diff_mult_left)
  also have "\<dots> \<le> 2 ^ 12 * (1 / 2 ^ 34)"
    using assms(3) c34 by (intro mult_mono) simp_all
  finally have e3: "\<bar>r * c - r * f\<alpha>\<bar> \<le> 1 / 2 ^ 22"
    by simp
  have "\<bar>p - r * f\<alpha>\<bar> \<le> \<bar>p - r * c\<bar> + \<bar>r * c - r * f\<alpha>\<bar>"
    by linarith
  also have "\<dots> \<le> 1 / 2 ^ 40 + 1 / 2 ^ 22"
    using perr e3 by (intro add_mono)
  finally have p21: "\<bar>p - r * f\<alpha>\<bar> \<le> 1 / 2 ^ 21"
    by simp
  have "\<bar>p + c0\<bar> \<le> \<bar>p - r * c\<bar> + \<bar>r * c\<bar> + \<bar>c0\<bar>"
    by linarith
  also have "\<dots> \<le> 1 / 2 ^ 40 + 2 ^ 13 + 2 ^ 12"
    using perr x2 assms(4) by (intro add_mono)
  finally have x3: "\<bar>p + c0\<bar> \<le> 2 ^ 15"
    by simp
  obtain x where x: "round_double (p + c0) = Num x" and xerr: "\<bar>x - (p + c0)\<bar> \<le> 1 / 2 ^ 38"
    using round_double_error [of "p + c0" "2 ^ 15"] x3
    by (auto simp add: powr_neg_numeral)
  have "\<bar>x - (r * f\<alpha> + c0)\<bar> \<le> \<bar>x - (p + c0)\<bar> + \<bar>p - r * f\<alpha>\<bar>"
    by linarith
  also have "\<dots> \<le> 1 / 2 ^ 38 + 1 / 2 ^ 21"
    using xerr p21 by (intro add_mono)
  finally have "\<bar>x - (r * f\<alpha> + c0)\<bar> \<le> 1 / 2 ^ 20"
    by simp
  moreover have "jadd (jmul (Num r) (round_double fa)) (Num c0) = Num x"
    using c p x by simp
  ultimately show ?thesis by blast
qed

text \<open>
  For an angle of magnitude at most \<open>2^20\<close> and a radius and a centre of magnitude at most
  4096, the projection in binary64 returns two numbers, each within \<open>2^-20\<close> of the exact
  projection.
\<close>

lemma double_projection_accuracy:
  assumes "\<bar>\<theta>\<bar> \<le> 2 ^ 20" and "\<bar>r\<bar> \<le> 2 ^ 12" and "\<bar>cx\<bar> \<le> 2 ^ 12" and "\<bar>cy\<bar> \<le> 2 ^ 12"
  shows "\<exists>x y. convertPolarToCartesian_double (Num r) (Num \<theta>) (Num cx) (Num cy) = (Num x, Num y)
           \<and> \<bar>x - fst (convertPolarToCartesian r \<theta> cx cy)\<bar> \<le> 1 / 2 ^ 20
           \<and> \<bar>y - snd (convertPolarToCartesian r \<theta> cx cy)\<bar> \<le> 1 / 2 ^ 20"
proof -
  obtain a where a: "jmul (jsub (Num \<theta>) (Num 90)) (jdiv (Num Math_PI) (Num 180)) = Num a"
    and aerr: "\<bar>a - (\<theta> - 90) * (pi / 180)\<bar> \<le> 1 / 2 ^ 35"
    using double_angle [OF assms(1)] by blast
  have "\<bar>cos a - cos ((\<theta> - 90) * (pi / 180))\<bar> \<le> 1 / 2 ^ 35"
    using cos_lipschitz [of a "(\<theta> - 90) * (pi / 180)"] aerr by linarith
  then obtain x where x: "jadd (jmul (Num r) (round_double (cos a))) (Num cx) = Num x"
    and xerr: "\<bar>x - (r * cos ((\<theta> - 90) * (pi / 180)) + cx)\<bar> \<le> 1 / 2 ^ 20"
    using double_coordinate [of "cos a" "cos ((\<theta> - 90) * (pi / 180))" r cx] assms(2,3)
    by auto
  have "\<bar>sin a - sin ((\<theta> - 90) * (pi / 180))\<bar> \<le> 1 / 2 ^ 35"
    using sin_lipschitz [of a "(\<theta> - 90) * (pi / 180)"] aerr by linarith
  then obtain y where y: "jadd (jmul (Num r) (round_double (sin a))) (Num cy) = Num y"
    and yerr: "\<bar>y - (r * sin ((\<theta> - 90) * (pi / 180)) + cy)\<bar> \<le> 1 / 2 ^ 20"
    using double_coordinate [of "sin a" "sin ((\<theta> - 90) * (pi / 180))" r cy] assms(2,4)
    by auto
  have "convertPolarToCartesian_double (Num r) (Num \<theta>) (Num cx) (Num cy) = (Num x, Num y)"
    unfolding convertPolarToCartesian_double_def Let_def a using x y by simp
  then show ?thesis
    using xerr yerr by (simp add: convertPolarToCartesian_def Let_def)
qed

text \<open>
  C9, as the code has it. The projection is a total function: for an angle of magnitude
  at most \<open>2^20 - 360\<close> and a radius and a centre of magnitude at most 4096 it returns two
  numbers, each within \<open>2^-20\<close> of the exact \<open>cx + r cos((\<theta> - 90) \<pi> / 180)\<close> and
  \<open>cy + r sin((\<theta> - 90) \<pi> / 180)\<close>. It is periodic up to rounding: the outputs for \<open>\<theta>\<close>
  and for \<open>\<theta> + 360\<close> differ by at most \<open>2^-19\<close> in each coordinate, and in exact arithmetic
  they are equal.
\<close>

theorem convertPolarToCartesian_periodic_up_to_rounding:
  assumes "\<bar>\<theta>\<bar> \<le> 2 ^ 20 - 360" and "\<bar>r\<bar> \<le> 2 ^ 12" and "\<bar>cx\<bar> \<le> 2 ^ 12" and "\<bar>cy\<bar> \<le> 2 ^ 12"
  shows "\<exists>x1 y1 x2 y2.
           convertPolarToCartesian_double (Num r) (Num \<theta>) (Num cx) (Num cy) = (Num x1, Num y1)
         \<and> convertPolarToCartesian_double (Num r) (Num (\<theta> + 360)) (Num cx) (Num cy)
             = (Num x2, Num y2)
         \<and> \<bar>x1 - (cx + r * cos ((\<theta> - 90) * pi / 180))\<bar> \<le> 1 / 2 ^ 20
         \<and> \<bar>y1 - (cy + r * sin ((\<theta> - 90) * pi / 180))\<bar> \<le> 1 / 2 ^ 20
         \<and> \<bar>x2 - x1\<bar> \<le> 1 / 2 ^ 19 \<and> \<bar>y2 - y1\<bar> \<le> 1 / 2 ^ 19
         \<and> convertPolarToCartesian r (\<theta> + 360) cx cy = convertPolarToCartesian r \<theta> cx cy"
proof -
  have exact: "convertPolarToCartesian r (\<theta> + 360) cx cy = convertPolarToCartesian r \<theta> cx cy"
    and formula: "convertPolarToCartesian r \<theta> cx cy =
       (cx + r * cos ((\<theta> - 90) * pi / 180), cy + r * sin ((\<theta> - 90) * pi / 180))"
    using convertPolarToCartesian_exact [of r \<theta> cx cy] by blast+
  have t1: "\<bar>\<theta>\<bar> \<le> 2 ^ 20" and t2: "\<bar>\<theta> + 360\<bar> \<le> 2 ^ 20"
    using assms(1) by (simp_all add: abs_if split: if_splits)
  obtain x1 y1 where one:
      "convertPolarToCartesian_double (Num r) (Num \<theta>) (Num cx) (Num cy) = (Num x1, Num y1)"
    and x1: "\<bar>x1 - fst (convertPolarToCartesian r \<theta> cx cy)\<bar> \<le> 1 / 2 ^ 20"
    and y1: "\<bar>y1 - snd (convertPolarToCartesian r \<theta> cx cy)\<bar> \<le> 1 / 2 ^ 20"
    using double_projection_accuracy [OF t1 assms(2-4)] by blast
  obtain x2 y2 where two:
      "convertPolarToCartesian_double (Num r) (Num (\<theta> + 360)) (Num cx) (Num cy)
         = (Num x2, Num y2)"
    and x2: "\<bar>x2 - fst (convertPolarToCartesian r (\<theta> + 360) cx cy)\<bar> \<le> 1 / 2 ^ 20"
    and y2: "\<bar>y2 - snd (convertPolarToCartesian r (\<theta> + 360) cx cy)\<bar> \<le> 1 / 2 ^ 20"
    using double_projection_accuracy [OF t2 assms(2-4)] by blast
  define X where "X = fst (convertPolarToCartesian r \<theta> cx cy)"
  define Y where "Y = snd (convertPolarToCartesian r \<theta> cx cy)"
  have "\<bar>x2 - x1\<bar> \<le> \<bar>x2 - X\<bar> + \<bar>x1 - X\<bar>"
    by linarith
  also have "\<dots> \<le> 1 / 2 ^ 20 + 1 / 2 ^ 20"
    using x1 x2 unfolding exact X_def by (intro add_mono)
  finally have dx: "\<bar>x2 - x1\<bar> \<le> 1 / 2 ^ 19"
    by simp
  have "\<bar>y2 - y1\<bar> \<le> \<bar>y2 - Y\<bar> + \<bar>y1 - Y\<bar>"
    by linarith
  also have "\<dots> \<le> 1 / 2 ^ 20 + 1 / 2 ^ 20"
    using y1 y2 unfolding exact Y_def by (intro add_mono)
  finally have dy: "\<bar>y2 - y1\<bar> \<le> 1 / 2 ^ 19"
    by simp
  have "\<bar>x1 - (cx + r * cos ((\<theta> - 90) * pi / 180))\<bar> \<le> 1 / 2 ^ 20"
    and "\<bar>y1 - (cy + r * sin ((\<theta> - 90) * pi / 180))\<bar> \<le> 1 / 2 ^ 20"
    using x1 y1 unfolding formula by simp_all
  with one two dx dy exact show ?thesis
    by blast
qed

text \<open>The projection of the radius 1 at 90 and at 450 degrees around the origin.\<close>

theorem convertPolarToCartesian_periodic_up_to_rounding_witness:
  "\<exists>x1 y1 x2 y2.
     convertPolarToCartesian_double (Num 1) (Num 90) (Num 0) (Num 0) = (Num x1, Num y1)
   \<and> convertPolarToCartesian_double (Num 1) (Num (90 + 360)) (Num 0) (Num 0) = (Num x2, Num y2)
   \<and> \<bar>x2 - x1\<bar> \<le> 1 / 2 ^ 19 \<and> \<bar>y2 - y1\<bar> \<le> 1 / 2 ^ 19"
proof -
  have "\<bar>90 :: real\<bar> \<le> 2 ^ 20 - 360" and "\<bar>1 :: real\<bar> \<le> 2 ^ 12" and "\<bar>0 :: real\<bar> \<le> 2 ^ 12"
    by simp_all
  from convertPolarToCartesian_periodic_up_to_rounding [OF this(1,2,3,3)]
  show ?thesis
    by blast
qed

text \<open>
  The two outputs are not equal. At 90 degrees the angle in radians is 0 and the point
  is \<open>(1, 0)\<close>. At 450 degrees the angle in radians is the binary64 number nearest to
  two \<open>\<pi>\<close>, which is less than two \<open>\<pi>\<close>: its sine is negative, about \<open>-2.4 * 10^-16\<close>, and
  the second coordinate is not 0.
\<close>

theorem convertPolarToCartesian_counterexample:
  "convertPolarToCartesian_double (Num 1) (Num 90) (Num 0) (Num 0) = (Num 1, Num 0)
   \<and> snd (convertPolarToCartesian_double (Num 1) (Num (90 + 360)) (Num 0) (Num 0)) \<noteq> Num 0"
proof -
  have first: "convertPolarToCartesian_double (Num 1) (Num 90) (Num 0) (Num 0) = (Num 1, Num 0)"
    by (simp add: convertPolarToCartesian_double_def jsub_def round_double_zero
        round_double_degree round_double_one)
  have angle: "jmul (jsub (Num (90 + 360)) (Num 90)) (jdiv (Num Math_PI) (Num 180))
                 = Num (884279719003555 / 140737488355328)"
    by (simp add: jsub_def round_double_360 round_double_degree round_double_turn)
  obtain s where s: "round_double (sin (884279719003555 / 140737488355328)) = Num s"
    and s_lo: "- (2 * 1) \<le> s" and s_hi: "s \<le> - (1 / 2 ^ 54 / 2)"
    using round_double_negative [of 1 "sin (884279719003555 / 140737488355328)" "1 / 2 ^ 54"]
      sin_two_pi_double
    by (auto simp add: powr_neg_numeral)
  obtain p where p: "round_double (1 * s) = Num p"
    and p_lo: "- (2 * 2) \<le> p" and p_hi: "p \<le> - (1 / 2 ^ 55 / 2)"
    using round_double_negative [of 2 "1 * s" "1 / 2 ^ 55"] s_lo s_hi
    by (auto simp add: powr_neg_numeral)
  obtain y where y: "round_double (p + 0) = Num y" and y_hi: "y \<le> - (1 / 2 ^ 56 / 2)"
    using round_double_negative [of 4 "p + 0" "1 / 2 ^ 56"] p_lo p_hi
    by (auto simp add: powr_neg_numeral)
  have "snd (convertPolarToCartesian_double (Num 1) (Num (90 + 360)) (Num 0) (Num 0)) = Num y"
    unfolding convertPolarToCartesian_double_def Let_def angle
    using s p y by simp
  moreover have "y \<noteq> 0"
    using y_hi by simp
  ultimately show ?thesis
    using first by simp
qed


section \<open>Properties of the spectrum\<close>

text \<open>
  C7, as the code has it. The radius scale that \<open>initCanvasSize\<close> computes, at every
  change of the geometry, is the span between the two radius limits (each the configured
  fraction of the canvas height) over 256, not over 255. The stroke of the bin \<open>i\<close> with
  magnitude byte \<open>b\<close> ends at the projection of the radius
  \<open>b * radiusScale * (volume / 2 + 1 / 2) + radiusMin\<close>.
\<close>

theorem radius_scale_is_span_over_256:
  "radius (freqMultiplyRate (initCanvasSize w)) =
     (height (canvasSize (initCanvasSize w)) * RADIUS_LIMIT_max
        - height (canvasSize (initCanvasSize w)) * RADIUS_LIMIT_min) / 256
   \<and> freq_end_radius (initCanvasSize w) vol b =
       real (unat b) * radius (freqMultiplyRate (initCanvasSize w)) * (vol * (1 / 2) + 1 / 2)
         + height (canvasSize (initCanvasSize w)) * RADIUS_LIMIT_min
   \<and> snd (freq_segment (initCanvasSize w) vol off i b) =
       convertPolarToCartesian_centre (canvasSize (initCanvasSize w))
         (freq_end_radius (initCanvasSize w) vol b) (freq_angle (initCanvasSize w) off i)"
  by (simp add: initCanvasSize_def freq_end_radius_def freq_segment_def Let_def algebra_simps)

text \<open>
  For a container 1600 wide the canvas is 900 high, the radius limits are 180 and 337.5,
  and the scale of the code is \<open>157.5 / 256\<close>, which is not the \<open>157.5 / 255\<close> of the
  specification.
\<close>

theorem radius_scale_counterexample:
  "radius (freqMultiplyRate (initCanvasSize 1600)) = 315 / 512
   \<and> radiusScale_spec (height (canvasSize (initCanvasSize 1600))) = 21 / 34
   \<and> radius (freqMultiplyRate (initCanvasSize 1600))
       \<noteq> radiusScale_spec (height (canvasSize (initCanvasSize 1600)))"
  by (simp add: initCanvasSize_def radiusScale_spec_def Let_def ASPECT_RATIO_def
      RADIUS_LIMIT_max_def RADIUS_LIMIT_min_def)

section \<open>Properties of the particle field\<close>



lemma render_fragments_length:
  "length (fst (render_fragments cs fsz rnd k fs)) = length fs"
  by (induction fs arbitrary: k) (auto simp add: split_beta Let_def split: option.splits)


text \<open>
  The slot \<open>i\<close> after a pass: the fragment it held when \<open>drawFragment\<close> accepted it, and
  otherwise the fragment spawned at the position the random supply had reached.
\<close>

lemma render_fragments_slot:
  assumes "i < length fs"
  shows "fst (render_fragments cs fsz rnd k fs) ! i =
           (if drawFragment cs (fs ! i) = None
            then fst (spawn_recycled fsz rnd
                   (k + 5 * length (filter (\<lambda>p. drawFragment cs p = None) (take i fs))))
            else fs ! i)"
  using assms
proof (induction fs arbitrary: k i)
  case Nil
  then show ?case by simp
next
  case (Cons p ps)
  show ?case
  proof (cases i)
    case 0
    then show ?thesis
      by (auto simp add: split_beta Let_def split: option.splits)
  next
    case (Suc j)
    with Cons.prems have j: "j < length ps" by simp
    show ?thesis
    proof (cases "drawFragment cs p")
      case None
      have k1: "snd (spawn_recycled fsz rnd k) = k + 5"
        by (simp add: spawn_recycled_def Let_def)
      show ?thesis
        using Cons.IH [OF j, of "k + 5"] None Suc k1
        by (simp add: split_beta Let_def add.assoc)
    next
      case (Some tri)
      show ?thesis
        using Cons.IH [OF j, of k] Some Suc
        by (simp add: split_beta Let_def)
    qed
  qed
qed


subsection \<open>The invariant of the field\<close>

lemma initFragmentsSize_ok:
  "0 \<le> width (canvasSize (initCanvasSize (real w)))"
  "0 \<le> height (canvasSize (initCanvasSize (real w)))"
  "0 \<le> minSelfRadius (initFragmentsSize (canvasSize (initCanvasSize (real w))))"
  "minSelfRadius (initFragmentsSize (canvasSize (initCanvasSize (real w))))
     \<le> maxSelfRadius (initFragmentsSize (canvasSize (initCanvasSize (real w))))"
  "0 \<le> size_stepRadius (initFragmentsSize (canvasSize (initCanvasSize (real w))))"
  by (simp_all add: initFragmentsSize_def initCanvasSize_def Let_def ASPECT_RATIO_def
      FRAGMENTS_stepRadius_def FRAGMENTS_minRadius_def FRAGMENTS_maxRadius_def)

lemma spawn_initial_ok:
  assumes "0 \<le> rnd k" and "0 \<le> rnd (k + 4)"
    and "0 \<le> minSelfRadius fsz" and "minSelfRadius fsz \<le> maxSelfRadius fsz"
    and "0 \<le> size_stepRadius fsz"
  shows "0 \<le> selfRadius (fst (spawn_initial fsz rnd k))
       \<and> 0 \<le> stepRadius (fst (spawn_initial fsz rnd k))"
  using assms by (simp add: spawn_initial_def)

lemma spawn_recycled_ok:
  assumes "0 \<le> rnd k" and "0 \<le> rnd (k + 3)"
    and "0 \<le> minSelfRadius fsz" and "minSelfRadius fsz \<le> maxSelfRadius fsz"
    and "0 \<le> size_stepRadius fsz"
  shows "0 \<le> selfRadius (fst (spawn_recycled fsz rnd k))
       \<and> 0 \<le> stepRadius (fst (spawn_recycled fsz rnd k))"
  using assms by (simp add: spawn_recycled_def Let_def)

lemma initFragments_loop_ok:
  assumes "\<forall>n. 0 \<le> rnd n"
    and "0 \<le> minSelfRadius fsz" and "minSelfRadius fsz \<le> maxSelfRadius fsz"
    and "0 \<le> size_stepRadius fsz"
  shows "list_all (\<lambda>f. 0 \<le> selfRadius f \<and> 0 \<le> stepRadius f)
           (fst (initFragments_loop fsz rnd k n))"
proof (induction n arbitrary: k)
  case 0
  then show ?case by simp
next
  case (Suc n)
  have "0 \<le> rnd k" and "0 \<le> rnd (k + 4)"
    using assms(1) by simp_all
  then show ?case
    using spawn_initial_ok [of rnd k fsz] assms(2-4) Suc.IH
    by (simp add: split_beta Let_def)
qed

lemma initFragments_loop_length: "length (fst (initFragments_loop fsz rnd k n)) = n"
  by (induction n arbitrary: k) (auto simp add: split_beta Let_def)

lemma render_fragments_ok:
  assumes "\<forall>n. 0 \<le> rnd n"
    and "0 \<le> minSelfRadius fsz" and "minSelfRadius fsz \<le> maxSelfRadius fsz"
    and "0 \<le> size_stepRadius fsz"
    and "list_all (\<lambda>f. 0 \<le> selfRadius f \<and> 0 \<le> stepRadius f) fs"
  shows "list_all (\<lambda>f. 0 \<le> selfRadius f \<and> 0 \<le> stepRadius f)
           (fst (render_fragments cs fsz rnd k fs))"
  using assms(5)
proof (induction fs arbitrary: k)
  case Nil
  then show ?case by simp
next
  case (Cons p ps)
  have "0 \<le> rnd k" and "0 \<le> rnd (k + 3)"
    using assms(1) by simp_all
  then show ?case
    using spawn_recycled_ok [of rnd k fsz] assms(2-4) Cons
    by (auto simp add: split_beta Let_def split: option.splits)
qed

lemma field_ok_init:
  assumes "\<forall>n. 0 \<le> rnd n"
  shows "field_ok (init_field rnd w)"
proof -
  have "list_all (\<lambda>f. 0 \<le> selfRadius f \<and> 0 \<le> stepRadius f)
          (fst (initFragments_loop (initFragmentsSize (canvasSize (initCanvasSize (real w))))
                  rnd 0 FRAGMENTS_count))"
    using assms initFragmentsSize_ok [of w] by (intro initFragments_loop_ok) simp_all
  then show ?thesis
    using initFragmentsSize_ok [of w]
    by (simp add: field_ok_def init_field_def initFragments_def Let_def split_beta)
qed

lemma field_ok_step:
  assumes "\<forall>n. 0 \<le> rnd n" and "field_ok st"
  shows "field_ok (field_step rnd e st)"
proof (cases e)
  case Tick
  with assms(2) show ?thesis
    by (auto simp add: field_ok_def step_fragment_def list_all_iff)
next
  case RenderPass
  with assms(2) show ?thesis
    using render_fragments_ok [OF assms(1), of "field_size st" "fragmentsArray st"
        "field_canvas st" "rnd_pos st"]
    by (simp add: field_ok_def split_beta Let_def)
next
  case (Resize w)
  with assms(2) show ?thesis
    using initFragmentsSize_ok [of w]
    by (simp add: field_ok_def Let_def)
qed

lemma field_ok_run:
  assumes "\<forall>n. 0 \<le> rnd n" and "field_ok st"
  shows "field_ok (field_run rnd es st)"
  using assms(2)
  by (induction es arbitrary: st) (auto simp add: field_ok_step [OF assms(1)])

lemma length_field_step:
  "length (fragmentsArray (field_step rnd e st)) = length (fragmentsArray st)"
  by (cases e) (auto simp add: split_beta Let_def render_fragments_length)

lemma length_field_run:
  "length (fragmentsArray (field_run rnd es st)) = length (fragmentsArray st)"
  by (induction es arbitrary: st) (auto simp add: length_field_step)

lemma length_init_field: "length (fragmentsArray (init_field rnd w)) = FRAGMENTS_count"
  by (simp add: init_field_def initFragments_def Let_def split_beta initFragments_loop_length)

text \<open>A fragment after \<open>n\<close> logical steps.\<close>

lemma ticks_fragment:
  assumes "i < length (fragmentsArray st)"
  shows "fragmentsArray (field_run rnd (replicate n Tick) st) ! i =
           (fragmentsArray st ! i)
             \<lparr>positionRadius :=
                positionRadius (fragmentsArray st ! i) + real n * stepRadius (fragmentsArray st ! i),
              selfAngle :=
                selfAngle (fragmentsArray st ! i) + real n * stepAngle (fragmentsArray st ! i)\<rparr>"
  using assms
proof (induction n arbitrary: st)
  case 0
  then show ?case by simp
next
  case (Suc n)
  have len: "i < length (fragmentsArray (field_step rnd Tick st))"
    using Suc.prems by simp
  show ?case
    using Suc.IH [OF len] Suc.prems
    by (simp add: step_fragment_def algebra_simps)
qed

text \<open>The first fragment of a new field, and the field the examples below start from.\<close>

lemma initFragments_loop_first:
  assumes "0 < n"
  shows "fst (initFragments_loop fsz rnd k n) ! 0 = fst (spawn_initial fsz rnd k)"
  using assms by (cases n) (simp_all add: split_beta Let_def)

lemma init_field_first:
  "fragmentsArray (init_field rnd w) ! 0 =
     fst (spawn_initial (initFragmentsSize (canvasSize (initCanvasSize (real w)))) rnd 0)"
proof -
  have "0 < FRAGMENTS_count"
    by (simp add: FRAGMENTS_count_def)
  then show ?thesis
    by (simp add: init_field_def initFragments_def Let_def split_beta initFragments_loop_first)
qed




lemma init_field_canvas:
  "field_canvas (init_field rnd 1600) = \<lparr>width = 1600, height = 900\<rparr>"
  "minPositionRadius (field_size (init_field rnd 1600)) = 180"
  by (simp_all add: init_field_def initFragments_def initFragmentsSize_def initCanvasSize_def
      Let_def split_beta ASPECT_RATIO_def RADIUS_LIMIT_min_def)



subsection \<open>Outward drift\<close>

text \<open>One event that does not recycle a slot does not decrease the radius of its fragment.\<close>

lemma field_run_append:
  "field_run rnd (es1 @ es2) st = field_run rnd es2 (field_run rnd es1 st)"
  by (induction es1 arbitrary: st) simp_all

lemma keeps_slot_append:
  "keeps_slot rnd i (es1 @ es2) st =
     (keeps_slot rnd i es1 st \<and> keeps_slot rnd i es2 (field_run rnd es1 st))"
  by (induction es1 arbitrary: st) auto

lemma slot_Tick:
  assumes "i < length (fragmentsArray st)"
  shows "fragmentsArray (field_step rnd Tick st) ! i = step_fragment (fragmentsArray st ! i)"
  using assms by simp

lemma slot_RenderPass_kept:
  assumes "i < length (fragmentsArray st)"
    and "drawFragment (field_canvas st) (fragmentsArray st ! i) \<noteq> None"
  shows "fragmentsArray (field_step rnd RenderPass st) ! i = fragmentsArray st ! i"
  using render_fragments_slot [OF assms(1), of "field_canvas st" "field_size st" rnd "rnd_pos st"]
    assms(2)
  by (simp add: split_beta Let_def)

lemma slot_Resize:
  "fragmentsArray (field_step rnd (Resize w) st) = fragmentsArray st"
  by (simp add: Let_def)

lemma canvas_step:
  "field_canvas (field_step rnd Tick st) = field_canvas st"
  "field_canvas (field_step rnd RenderPass st) = field_canvas st"
  "w \<noteq> 0 \<Longrightarrow> field_canvas (field_step rnd (Resize w) st) = canvasSize (initCanvasSize (real w))"
  by (simp_all add: split_beta Let_def)

lemma kept_step_radius:
  assumes "field_ok st" and "i < length (fragmentsArray st)"
    and "keeps_slot rnd i [e] st"
  shows "positionRadius (fragmentsArray st ! i)
           \<le> positionRadius (fragmentsArray (field_step rnd e st) ! i)"
proof (cases e)
  case Tick
  have "0 \<le> stepRadius (fragmentsArray st ! i)"
    using assms(1,2) by (simp add: field_ok_def list_all_length)
  with Tick assms(2) show ?thesis
    by (simp add: step_fragment_def)
next
  case RenderPass
  with assms(3) have "drawFragment (field_canvas st) (fragmentsArray st ! i) \<noteq> None"
    by simp
  then have "fragmentsArray (field_step rnd RenderPass st) ! i = fragmentsArray st ! i"
    using assms(2) by (intro slot_RenderPass_kept)
  with RenderPass show ?thesis
    by (simp only: order_refl)
next
  case (Resize w)
  have "fragmentsArray (field_step rnd (Resize w) st) = fragmentsArray st"
    by (rule slot_Resize)
  with Resize show ?thesis
    by (simp only: order_refl)
qed

lemma kept_run_radius:
  assumes "\<forall>n. 0 \<le> rnd n" and "field_ok st" and "i < length (fragmentsArray st)"
    and "keeps_slot rnd i es st"
  shows "positionRadius (fragmentsArray st ! i)
           \<le> positionRadius (fragmentsArray (field_run rnd es st) ! i)"
  using assms(2-4)
proof (induction es arbitrary: st)
  case Nil
  then show ?case by simp
next
  case (Cons e es)
  have one: "keeps_slot rnd i [e] st" and rest: "keeps_slot rnd i es (field_step rnd e st)"
    using Cons.prems(3) by simp_all
  have "positionRadius (fragmentsArray st ! i)
          \<le> positionRadius (fragmentsArray (field_step rnd e st) ! i)"
    using Cons.prems(1,2) one by (rule kept_step_radius)
  also have "\<dots> \<le> positionRadius (fragmentsArray (field_run rnd es (field_step rnd e st)) ! i)"
    using Cons.prems(1,2) rest
    by (intro Cons.IH) (simp_all add: field_ok_step [OF assms(1)] length_field_step)
  finally show ?case by simp
qed

text \<open>
  C4. In a field that \<open>init\<close> has built and that steps, redraw passes and resizes have
  changed (the random numbers being in \<open>[0,1)\<close>), every fragment has a step
  \<open>stepRadius\<close> that is not negative, and a logical step adds it to the position radius.
  So along every further sequence of logical steps, redraw passes and resizes that does
  not recycle the fragment of a slot, its position radius never decreases: the radius
  after the events \<open>es1\<close> is at most the radius after \<open>es1\<close> followed by \<open>es2\<close>. In
  particular the radius after \<open>m\<close> logical steps is at most the one after \<open>n \<ge> m\<close>.
\<close>

theorem positionRadius_nondecreasing:
  assumes "\<forall>n. 0 \<le> rnd n \<and> rnd n < 1"
    and "st = field_run rnd es0 (init_field rnd w)"
    and "i < length (fragmentsArray st)"
    and "keeps_slot rnd i (es1 @ es2) st"
    and "m \<le> n"
  shows "0 \<le> stepRadius (fragmentsArray st ! i)
       \<and> positionRadius (fragmentsArray (field_step rnd Tick st) ! i) =
           positionRadius (fragmentsArray st ! i) + stepRadius (fragmentsArray st ! i)
       \<and> positionRadius (fragmentsArray (field_run rnd es1 st) ! i)
           \<le> positionRadius (fragmentsArray (field_run rnd (es1 @ es2) st) ! i)
       \<and> positionRadius (fragmentsArray (field_run rnd (replicate m Tick) st) ! i)
           \<le> positionRadius (fragmentsArray (field_run rnd (replicate n Tick) st) ! i)"
proof -
  have rnd: "\<forall>n. 0 \<le> rnd n"
    using assms(1) by simp
  have ok: "field_ok st"
    using rnd assms(2) field_ok_run field_ok_init by simp
  then have step: "0 \<le> stepRadius (fragmentsArray st ! i)"
    using assms(3) by (simp add: field_ok_def list_all_length)
  have "real m * stepRadius (fragmentsArray st ! i) \<le> real n * stepRadius (fragmentsArray st ! i)"
    using step assms(5) by (simp add: mult_right_mono)
  then have ticks: "positionRadius (fragmentsArray (field_run rnd (replicate m Tick) st) ! i)
           \<le> positionRadius (fragmentsArray (field_run rnd (replicate n Tick) st) ! i)"
    using assms(3) by (simp add: ticks_fragment)
  have ok1: "field_ok (field_run rnd es1 st)"
    using rnd ok by (rule field_ok_run)
  have len1: "i < length (fragmentsArray (field_run rnd es1 st))"
    using assms(3) by (simp add: length_field_run)
  have keep2: "keeps_slot rnd i es2 (field_run rnd es1 st)"
    using assms(4) by (simp add: keeps_slot_append)
  have "positionRadius (fragmentsArray (field_run rnd es1 st) ! i)
           \<le> positionRadius (fragmentsArray (field_run rnd es2 (field_run rnd es1 st)) ! i)"
    using rnd ok1 len1 keep2 by (rule kept_run_radius)
  then have run: "positionRadius (fragmentsArray (field_run rnd es1 st) ! i)
           \<le> positionRadius (fragmentsArray (field_run rnd (es1 @ es2) st) ! i)"
    by (simp only: field_run_append)
  show ?thesis
    using step ticks run assms(3) by (simp add: step_fragment_def)
qed

text \<open>
  The field for a container 1600 wide with every random number \<open>1 / 4\<close>. Its first fragment
  starts at the radius 290, to the right of the centre, with a step of 0.5. Through a
  logical step, a redraw pass, a logical step, a resize to 800, a redraw pass and a
  logical step it stays on the canvas and is never recycled: its radius is 290.5 after
  the first two events and 291.5 after all six.
\<close>

lemma first_fragment_init:
  "fragmentsArray (init_field (\<lambda>_. 1 / 4) 1600) ! 0 =
     \<lparr>selfRadius = 33 / 4, selfAngle = 90, positionRadius = 290, positionAngle = 90,
      stepRadius = 1 / 2, stepAngle = - 3 / 4\<rparr>"
  by (simp add: init_field_first spawn_initial_def
      initFragmentsSize_def initCanvasSize_def Let_def ASPECT_RATIO_def
      FRAGMENTS_stepRadius_def FRAGMENTS_minRadius_def FRAGMENTS_maxRadius_def
      FRAGMENTS_stepAngle_def RADIUS_LIMIT_min_def)

lemma drawn_to_the_right:
  assumes "w / 2 + r + 33 / 4 \<le> w" and "0 \<le> r" and "33 / 4 \<le> h / 2"
  shows "drawFragment \<lparr>width = w, height = h\<rparr>
           \<lparr>selfRadius = 33 / 4, selfAngle = a, positionRadius = r, positionAngle = 90,
            stepRadius = 1 / 2, stepAngle = - 3 / 4\<rparr> \<noteq> None"
  using assms
  by (simp add: drawFragment_def fragment_centre_def convertPolarToCartesian_centre_def
      convertPolarToCartesian_def Let_def)

theorem positionRadius_nondecreasing_witness:
  "positionRadius
     (fragmentsArray
        (field_run (\<lambda>_. 1 / 4) [Tick, RenderPass] (init_field (\<lambda>_. 1 / 4) 1600)) ! 0)
   \<le> positionRadius
       (fragmentsArray
          (field_run (\<lambda>_. 1 / 4) ([Tick, RenderPass] @ [Tick, Resize 800, RenderPass, Tick])
             (init_field (\<lambda>_. 1 / 4) 1600)) ! 0)
   \<and> keeps_slot (\<lambda>_. 1 / 4) 0 ([Tick, RenderPass] @ [Tick, Resize 800, RenderPass, Tick])
         (init_field (\<lambda>_. 1 / 4) 1600)
   \<and> 0 \<le> stepRadius (fragmentsArray (init_field (\<lambda>_. 1 / 4) 1600) ! 0)"
proof -
  let ?rnd = "\<lambda>_::nat. 1 / 4 :: real"
  let ?s0 = "init_field ?rnd 1600"
  let ?s1 = "field_step ?rnd Tick ?s0"
  let ?s2 = "field_step ?rnd RenderPass ?s1"
  let ?s3 = "field_step ?rnd Tick ?s2"
  let ?s4 = "field_step ?rnd (Resize 800) ?s3"
  let ?s5 = "field_step ?rnd RenderPass ?s4"
  have rnd: "\<forall>n. 0 \<le> ?rnd n \<and> ?rnd n < 1"
    by simp
  have len0: "0 < length (fragmentsArray ?s0)"
    by (simp only: length_init_field FRAGMENTS_count_def)
  have len: "0 < length (fragmentsArray (field_step ?rnd e st))"
    if "0 < length (fragmentsArray st)" for e st
    using that by (simp only: length_field_step)
  have c0: "field_canvas ?s0 = \<lparr>width = 1600, height = 900\<rparr>"
    by (rule init_field_canvas)
  have c1: "field_canvas ?s1 = \<lparr>width = 1600, height = 900\<rparr>"
    by (simp only: canvas_step c0)
  have c4: "field_canvas ?s4 = \<lparr>width = 800, height = 450\<rparr>"
    by (simp add: canvas_step initCanvasSize_def Let_def ASPECT_RATIO_def)
  have f1: "fragmentsArray ?s1 ! 0 =
      \<lparr>selfRadius = 33 / 4, selfAngle = 357 / 4, positionRadius = 581 / 2, positionAngle = 90,
       stepRadius = 1 / 2, stepAngle = - 3 / 4\<rparr>"
    by (simp only: slot_Tick [OF len0] first_fragment_init) (simp add: step_fragment_def)
  have d1: "drawFragment (field_canvas ?s1) (fragmentsArray ?s1 ! 0) \<noteq> None"
    unfolding c1 f1 by (rule drawn_to_the_right) simp_all
  have f2: "fragmentsArray ?s2 ! 0 = fragmentsArray ?s1 ! 0"
    using len [OF len0] d1 by (rule slot_RenderPass_kept)
  have f3: "fragmentsArray ?s3 ! 0 =
      \<lparr>selfRadius = 33 / 4, selfAngle = 177 / 2, positionRadius = 291, positionAngle = 90,
       stepRadius = 1 / 2, stepAngle = - 3 / 4\<rparr>"
    by (simp only: slot_Tick [OF len [OF len [OF len0]]] f2 f1) (simp add: step_fragment_def)
  have f4: "fragmentsArray ?s4 ! 0 = fragmentsArray ?s3 ! 0"
    by (simp only: slot_Resize)
  have d4: "drawFragment (field_canvas ?s4) (fragmentsArray ?s4 ! 0) \<noteq> None"
    unfolding c4 f4 f3 by (rule drawn_to_the_right) simp_all
  have keep: "keeps_slot ?rnd 0 ([Tick, RenderPass] @ [Tick, Resize 800, RenderPass, Tick]) ?s0"
    using d1 d4 by simp
  have le: "(0::nat) \<le> 0"
    by simp
  from positionRadius_nondecreasing [OF rnd _ len0 keep le, of "[]" 1600] keep
  show ?thesis
    by simp
qed

section \<open>Properties of the animation scheduler\<close>

text \<open>Starting twice is starting once, and so is stopping; stopping zeroes both handles.\<close>

lemma startStep_handles:
  "stepEventId (startStep s) \<noteq> 0" "flushEventId (startStep s) \<noteq> 0"
  by (simp_all add: startStep_def setInterval_def requestAnimationFrame_def Let_def)

lemma startStep_idempotent: "startStep (startStep s) = startStep s"
proof -
  have "stepEventId (startStep s) \<noteq> 0 \<and> flushEventId (startStep s) \<noteq> 0"
    by (simp add: startStep_handles)
  then show ?thesis
    by (simp add: startStep_def [of "startStep s"] Let_def)
qed

lemma stopStep_handles:
  "stepEventId (stopStep s) = 0" "flushEventId (stopStep s) = 0"
  by (simp_all add: stopStep_def clearInterval_def cancelAnimationFrame_def Let_def)

lemma stopStep_idempotent: "stopStep (stopStep s) = stopStep s"
proof -
  have "stepEventId (stopStep s) = 0 \<and> flushEventId (stopStep s) = 0"
    by (simp add: stopStep_handles)
  then show ?thesis
    by (simp add: stopStep_def [of "stopStep s"] Let_def)
qed

text \<open>
  The logical stepper stays consistent through every sequence of events: its handle is
  not zero exactly when one interval timer runs, the timer of the handle.
\<close>

lemma fold_render_reschedule_stepper:
  "stepEventId (fold (\<lambda>_. render_reschedule) xs s) = stepEventId s
   \<and> intervals (fold (\<lambda>_. render_reschedule) xs s) = intervals s
   \<and> lastTimerId (fold (\<lambda>_. render_reschedule) xs s) = lastTimerId s"
  by (induction xs arbitrary: s)
     (auto simp add: render_reschedule_def requestAnimationFrame_def Let_def)

lemma stepper_ok_step:
  assumes "stepper_ok s"
  shows "stepper_ok (sched_step e s)"
proof (cases e)
  case Play
  with assms show ?thesis
    by (auto simp add: stepper_ok_def startStep_def setInterval_def requestAnimationFrame_def
        Let_def split: if_splits)
next
  case Pause
  with assms show ?thesis
    by (auto simp add: stepper_ok_def stopStep_def clearInterval_def cancelAnimationFrame_def
        Let_def split: if_splits)
next
  case Frame
  with assms show ?thesis
    using fold_render_reschedule_stepper [of "frames s" "s\<lparr>frames := []\<rparr>"]
    by (simp add: stepper_ok_def animationFrame_def)
next
  case Flush
  with assms show ?thesis
    by (auto simp add: stepper_ok_def flush_once_def requestAnimationFrame_def Let_def)
qed

lemma stepper_ok_run: "stepper_ok (sched_run es init_scheduler)"
proof -
  have "stepper_ok s \<Longrightarrow> stepper_ok (sched_run es s)" for s
    by (induction es arbitrary: s) (auto simp add: stepper_ok_step)
  moreover have "stepper_ok init_scheduler"
    by (simp add: stepper_ok_def init_scheduler_def requestAnimationFrame_def Let_def)
  ultimately show ?thesis by blast
qed

text \<open>
  While the handle of the redraw loop is not zero, a frame leaves as many requests
  pending as it found: every render callback that runs requests the next frame.
\<close>

lemma fold_render_reschedule_frames:
  assumes "flushEventId s \<noteq> 0"
  shows "length (frames (fold (\<lambda>_. render_reschedule) xs s)) = length (frames s) + length xs
       \<and> flushEventId (fold (\<lambda>_. render_reschedule) xs s) = flushEventId s"
  using assms
  by (induction xs arbitrary: s)
     (auto simp add: render_reschedule_def requestAnimationFrame_def Let_def)

lemma animationFrame_keeps_chains:
  assumes "flushEventId s \<noteq> 0"
  shows "length (frames (animationFrame s)) = length (frames s)
       \<and> flushEventId (animationFrame s) = flushEventId s"
  using fold_render_reschedule_frames [of "s\<lparr>frames := []\<rparr>" "frames s"] assms
  by (simp add: animationFrame_def)

lemma paused_after_playing_eq:
  "paused_after_playing =
     \<lparr>stepEventId = 0, flushEventId = 0, intervals = [], frames = [3],
      lastTimerId = 1, lastFrameId = 3\<rparr>"
  by (simp add: paused_after_playing_def init_scheduler_def animationFrame_def
      render_reschedule_def startStep_def stopStep_def setInterval_def
      requestAnimationFrame_def clearInterval_def cancelAnimationFrame_def Let_def)

text \<open>
  C1, at a state where it fails. The track was played and paused: both handles are zero,
  and one render callback is still pending, because \<open>render\<close> requests the next frame
  without storing the handle, so \<open>stopStep\<close> has cancelled the handle of the first request
  only. \<open>startStep\<close> twice from there leaves one interval timer and two pending render
  callbacks, and since the handle of the redraw loop is not zero both request the next
  frame at every frame: two redraw chains are active, not one. The same happens when
  the track starts before the first frame after mounting.
\<close>

theorem startStep_twice_two_redraw_chains:
  "stepEventId paused_after_playing = 0 \<and> flushEventId paused_after_playing = 0
   \<and> intervals (startStep (startStep paused_after_playing)) = [2]
   \<and> stepEventId (startStep (startStep paused_after_playing)) = 2
   \<and> flushEventId (startStep (startStep paused_after_playing)) = 4
   \<and> frames (startStep (startStep paused_after_playing)) = [3, 4]
   \<and> frames (animationFrame (startStep (startStep paused_after_playing))) = [5, 6]
   \<and> frames (animationFrame (animationFrame (startStep (startStep paused_after_playing)))) = [7, 8]
   \<and> frames (startStep (startStep init_scheduler)) = [1, 2]
   \<and> frames (animationFrame (startStep (startStep init_scheduler))) = [3, 4]"
  by (simp add: paused_after_playing_eq init_scheduler_def animationFrame_def
      render_reschedule_def startStep_def setInterval_def requestAnimationFrame_def Let_def)

section \<open>Properties of the palette adapter\<close>

text \<open>
  C8. A palette of one colour is padded with that colour to three entries, and the
  adapter returns the three role colours, each made from that colour: its hue and
  saturation at the lightness 0.3 for the background and 0.85 for the spectrum and the
  particles, the particles at the opacity 0.4. Reading the entry 2 does not fail.
\<close>

theorem getCoverColor_single_colour:
  "ensure3 [Some c] = [Some c, Some c, Some c]
   \<and> getCoverColor rgbToHsl hslToRgb [Some c] =
       Inr \<lparr>bg = Rgb (hslToRgb (fst (rgbToHsl c)) (fst (snd (rgbToHsl c))) (3 / 10)),
            freq = Rgb (hslToRgb (fst (rgbToHsl c)) (fst (snd (rgbToHsl c))) (85 / 100)),
            fragments =
              Rgba (hslToRgb (fst (rgbToHsl c)) (fst (snd (rgbToHsl c))) (85 / 100)) (4 / 10)\<rparr>"
  by (simp add: getCoverColor_def changeColor_def js_index_def Let_def split_beta)

text \<open>An empty palette is padded with \<open>undefined\<close>, and the adapter fails on it.\<close>

lemma getCoverColor_empty: "getCoverColor rgbToHsl hslToRgb [] = Inl TypeError"
  by (simp add: getCoverColor_def changeColor_def js_index_def Let_def)

section \<open>Properties of the playback controller\<close>

lemma toggleMute_fields:
  "audio_muted (toggleMute s) = (\<not> audio_muted s)"
  "isMuted (toggleMute s) = (\<not> audio_muted s)"
  "volume (toggleMute s) = volume s"
  "barVolumeNow_height (toggleMute s) = barVolumeNow_height s"
  by (simp_all add: toggleMute_def)

text \<open>The two mute flags are equal after every sequence of volume gestures.\<close>

lemma lock_step_run:
  assumes "isMuted s = audio_muted s"
  shows "isMuted (run_volume as s) = audio_muted (run_volume as s)"
  using assms
proof (induction as arbitrary: s)
  case Nil
  then show ?case by simp
next
  case (Cons a as)
  show ?case
  proof (cases a)
    case ToggleMute
    then show ?thesis
      using Cons.IH [of "toggleMute s"] by (simp add: toggleMute_fields)
  next
    case (SetVolume v)
    have "isMuted (setVolume v s) = audio_muted (setVolume v s)"
      using Cons.prems by (simp add: setVolume_def toggleMute_def Let_def)
    then show ?thesis
      using Cons.IH [of "setVolume v s"] SetVolume by simp
  qed
qed



text \<open>
  C10. An argument of exactly zero is no mute gesture: \<open>setVolume(0)\<close> sets the volume to
  0 and the fill of the volume indicator to 0 %, and leaves the player unmuted, also when
  it was muted. So the controller reaches two different states: muted with the volume
  0.8 kept (after \<open>toggleMute\<close>), and unmuted with the volume 0 (after \<open>setVolume(0)\<close>).
\<close>

theorem setVolume_zero_is_not_mute:
  assumes "isMuted s = audio_muted s"
  shows "volume (setVolume (Num 0) s) = Num 0
       \<and> barVolumeNow_height (setVolume (Num 0) s) = Num 0
       \<and> \<not> isMuted (setVolume (Num 0) s) \<and> \<not> audio_muted (setVolume (Num 0) s)
       \<and> isMuted (run_volume [ToggleMute] initAudio)
       \<and> volume (run_volume [ToggleMute] initAudio) = Num (8 / 10)
       \<and> \<not> isMuted (run_volume [SetVolume (Num 0)] initAudio)
       \<and> volume (run_volume [SetVolume (Num 0)] initAudio) = Num 0
       \<and> run_volume [ToggleMute] initAudio \<noteq> run_volume [SetVolume (Num 0)] initAudio"
proof -
  have differ: "isMuted (run_volume [ToggleMute] initAudio)
                  \<noteq> isMuted (run_volume [SetVolume (Num 0)] initAudio)"
    by (simp add: setVolume_def jgt_def toggleMute_def Let_def initAudio_def)
  then have "run_volume [ToggleMute] initAudio \<noteq> run_volume [SetVolume (Num 0)] initAudio"
    by metis
  moreover have "isMuted (run_volume [ToggleMute] initAudio)
       \<and> volume (run_volume [ToggleMute] initAudio) = Num (8 / 10)
       \<and> \<not> isMuted (run_volume [SetVolume (Num 0)] initAudio)
       \<and> volume (run_volume [SetVolume (Num 0)] initAudio) = Num 0"
    by (simp add: setVolume_def jgt_def toggleMute_def Let_def initAudio_def)
  moreover have "volume (setVolume (Num 0) s) = Num 0
       \<and> barVolumeNow_height (setVolume (Num 0) s) = Num 0
       \<and> \<not> isMuted (setVolume (Num 0) s) \<and> \<not> audio_muted (setVolume (Num 0) s)"
    using assms
    by (simp add: setVolume_def jgt_def toggleMute_def Let_def round_double_zero)
  ultimately show ?thesis
    by blast
qed

theorem setVolume_zero_is_not_mute_witness:
  "volume (setVolume (Num 0) (toggleMute initAudio)) = Num 0
   \<and> barVolumeNow_height (setVolume (Num 0) (toggleMute initAudio)) = Num 0
   \<and> \<not> isMuted (setVolume (Num 0) (toggleMute initAudio))
   \<and> isMuted (toggleMute initAudio)"
proof -
  have lock: "isMuted (toggleMute initAudio) = audio_muted (toggleMute initAudio)"
    by (simp add: toggleMute_fields)
  have muted: "isMuted (toggleMute initAudio)"
    by (simp add: toggleMute_fields initAudio_def)
  show ?thesis
    using setVolume_zero_is_not_mute [OF lock] muted
    by simp
qed

text \<open>
  The fraction under the pointer is a number whenever the bar has a width and the offset
  of the pointer is of magnitude at most \<open>2^1000\<close>.
\<close>

lemma seek_fraction_finite:
  assumes "clientWidth e \<noteq> 0" and "\<bar>offsetX e\<bar> \<le> 2 powr 1000"
  shows "\<exists>p. round_double (offsetX e / real (clientWidth e)) = Num p"
proof -
  have "1 \<le> real (clientWidth e)"
    using assms(1) by simp
  then have "\<bar>offsetX e\<bar> / real (clientWidth e) \<le> \<bar>offsetX e\<bar> / 1"
    by (intro divide_left_mono) simp_all
  then have "\<bar>offsetX e / real (clientWidth e)\<bar> \<le> 2 powr 1000"
    using assms(2) by simp
  moreover have "(2::real) powr (- 1022) \<le> 2 powr 1000"
    by (intro powr_mono) simp_all
  ultimately show ?thesis
    using round_double_error [of "offsetX e / real (clientWidth e)" "2 powr 1000"] by auto
qed

text \<open>
  C5, as the code has it. When the bar has a width and the quotient
  \<open>offsetX / clientWidth\<close> does not overflow, the seek preview takes that quotient,
  rounded to the binary64 number \<open>p\<close>, as the fraction, without clamping it: it moves the
  played bar and the seeker to \<open>p * 100\<close> percent, and it shows the whole seconds
  \<open>floor (p * duration)\<close>, the product rounded to binary64 before it is rounded down, and
  a duration that is \<open>NaN\<close> counting as 0. With a bar 200 wide, the pointer at 50 and a
  duration of 120 the time shown is 30.
\<close>

theorem seekProgress_preview:
  assumes "clientWidth e \<noteq> 0"
    and "round_double (offsetX e / real (clientWidth e)) = Num p"
  shows "(duration s = NaN \<longrightarrow> timeNow (seekProgress e s) = Num 0)
       \<and> (\<forall>d. duration s = Num d \<longrightarrow>
             timeNow (seekProgress e s) = jfloor (round_double (p * d)))
       \<and> barPlayed_width (seekProgress e s) = round_double (p * 100)
       \<and> seeker_left (seekProgress e s) = round_double (p * 100)
       \<and> (offsetX e = 50 \<and> clientWidth e = 200 \<and> duration s = Num 120 \<longrightarrow>
             timeNow (seekProgress e s) = Num 30)"
proof -
  have general:
    "(duration s = NaN \<longrightarrow> timeNow (seekProgress e s) = Num 0)
       \<and> (\<forall>d. duration s = Num d \<longrightarrow>
             timeNow (seekProgress e s) = jfloor (round_double (p * d)))
       \<and> barPlayed_width (seekProgress e s) = round_double (p * 100)
       \<and> seeker_left (seekProgress e s) = round_double (p * 100)"
    using assms by (auto simp add: seekProgress_def Let_def round_double_zero)
  have "timeNow (seekProgress e s) = Num 30"
    if "offsetX e = 50" and "clientWidth e = 200" and "duration s = Num 120"
  proof -
    have "Num p = Num (1 / 4)"
      using assms(2) that(1,2) by (simp add: round_double_quarter)
    then have "p * 120 = 30"
      by simp
    then have "round_double (p * 120) = Num 30"
      by (simp only: round_double_30)
    moreover have "timeNow (seekProgress e s) = jfloor (round_double (p * 120))"
      using general that(3) by blast
    ultimately show ?thesis
      by simp
  qed
  with general show ?thesis
    by blast
qed

text \<open>
  The example above, the same pointer before the duration is known, and the
  pointer at 420 on a bar 600 wide with a duration of 180: the fraction is the binary64
  number next below 0.7, the product the one next below 126, and the time shown is 125.
\<close>

theorem seekProgress_preview_witness:
  "timeNow (seekProgress \<lparr>offsetX = 50, offsetY = 0, clientWidth = 200, clientHeight = 10\<rparr>
      (initAudio\<lparr>duration := Num 120\<rparr>)) = Num 30
   \<and> timeNow (seekProgress \<lparr>offsetX = 50, offsetY = 0, clientWidth = 200, clientHeight = 10\<rparr>
      initAudio) = Num 0
   \<and> timeNow (seekProgress \<lparr>offsetX = 420, offsetY = 0, clientWidth = 600, clientHeight = 10\<rparr>
      (initAudio\<lparr>duration := Num 180\<rparr>)) = Num 125"
proof -
  let ?e = "\<lparr>offsetX = 50, offsetY = 0, clientWidth = 200, clientHeight = 10\<rparr>"
  let ?e' = "\<lparr>offsetX = 420, offsetY = 0, clientWidth = 600, clientHeight = 10\<rparr>"
  have w: "clientWidth ?e \<noteq> 0" and w': "clientWidth ?e' \<noteq> 0"
    by simp_all
  have p: "round_double (offsetX ?e / real (clientWidth ?e)) = Num (1 / 4)"
    by (simp add: round_double_quarter)
  have p': "round_double (offsetX ?e' / real (clientWidth ?e'))
              = Num (3152519739159347 / 4503599627370496)"
    by (simp add: round_double_7_10)
  have nan: "duration initAudio = NaN"
    by (simp add: initAudio_def)
  have down: "\<lfloor>8866461766385663 / 70368744177664 :: real\<rfloor> = 125"
    by simp
  show ?thesis
    using seekProgress_preview [OF w p, of "initAudio\<lparr>duration := Num 120\<rparr>"]
      seekProgress_preview [OF w p, of initAudio] nan
      seekProgress_preview [OF w' p', of "initAudio\<lparr>duration := Num 180\<rparr>"]
    by (simp add: round_double_30 round_double_126 down)
qed

text \<open>
  With the pointer at 301 on a bar 200 wide and a duration of 120, the time shown is 180,
  beyond the end of the track: the fraction 1.505 was not clamped, and the product 180.6
  was rounded down. The clamped fraction of the specification gives 120.
\<close>

theorem seekProgress_counterexample:
  "timeNow (seekProgress \<lparr>offsetX = 301, offsetY = 0, clientWidth = 200, clientHeight = 10\<rparr>
      (initAudio\<lparr>duration := Num 120\<rparr>)) = Num 180
   \<and> seekPreview_spec 301 200 (Num 120) = Num 120
   \<and> timeNow (seekProgress \<lparr>offsetX = 301, offsetY = 0, clientWidth = 200, clientHeight = 10\<rparr>
      (initAudio\<lparr>duration := Num 120\<rparr>)) \<noteq> seekPreview_spec 301 200 (Num 120)
   \<and> barPlayed_width
        (seekProgress \<lparr>offsetX = 301, offsetY = 0, clientWidth = 200, clientHeight = 10\<rparr>
          (initAudio\<lparr>duration := Num 120\<rparr>)) = Num (301 / 2)"
proof -
  have down: "\<lfloor>6354297599243059 / 35184372088832 :: real\<rfloor> = 180"
    by simp
  show ?thesis
    by (simp add: seekProgress_def seekPreview_spec_def Let_def round_double_301_200
        round_double_180_6 round_double_150_5 round_double_120 down)
qed

text \<open>
  Committed seeks. With a known duration \<open>d\<close>, \<open>setProgress\<close> stores a time in \<open>[0, d]\<close>
  for every argument but \<open>NaN\<close>, and a click on the bar before the duration is known
  seeks to 0.
\<close>

lemma setProgress_clamped:
  assumes "duration s = Num d" and "0 \<le> d" and "time \<noteq> NaN"
  shows "\<exists>c. currentTime (setProgress time s) = Num c \<and> 0 \<le> c \<and> c \<le> d"
  using assms by (cases time) (auto simp add: setProgress_def jgt_def Let_def)

lemma jumpProgress_unresolved:
  assumes "duration s = NaN" and "clientWidth e \<noteq> 0"
    and "round_double (offsetX e / real (clientWidth e)) = Num p"
  shows "currentTime (jumpProgress e s) = Num 0"
  using assms
  by (simp add: jumpProgress_def setProgress_def jgt_def Let_def round_double_zero)

text \<open>
  C6, at a state where it fails. Before the metadata of the track has arrived the
  duration is \<open>NaN\<close>. A horizontal wheel movement then computes the time
  \<open>currentTime - deltaX / width * NaN\<close>, which is \<open>NaN\<close>; neither comparison of
  \<open>setProgress\<close> holds for it, and \<open>NaN\<close> is what is assigned to the playback position.
  \<open>scrollEvent\<close> has no test of the duration, where \<open>jumpProgress\<close> has one: the same state
  seeks to 0 on a click.
\<close>

theorem scrollEvent_unresolved_duration:
  "duration initAudio = NaN
   \<and> currentTime (scrollEvent \<lparr>deltaX = 10, deltaY = 0\<rparr> \<lparr>width = 800, height = 450\<rparr> initAudio)
       = NaN
   \<and> currentTime
       (jumpProgress \<lparr>offsetX = 50, offsetY = 0, clientWidth = 200, clientHeight = 10\<rparr> initAudio)
       = Num 0"
  by (simp add: scrollEvent_def setProgress_def jumpProgress_def jsub_def jgt_def
      initAudio_def Let_def jmul_NaN round_double_quarter round_double_zero)

end
